theory Spec2Isabelle
  imports Main "HOL-Library.Word" "HOL-Library.Sublist"
begin

unbundle bit_operations_syntax

section \<open>Data model\<close>

text \<open>
  A \<open>const CBlockIndex*\<close> is an address (\<open>nat\<close>) or the null pointer (\<open>None\<close>).  Block index
  entries are never freed by the node, so the heap of entries is a total function from
  addresses.  Of the fields of an entry, those that \<open>rpc/game.cpp\<close> reads are kept
  (the hash, the parent link and the status bits), and the height, which the common
  ancestor of the specification uses.
\<close>

type_synonym uint256 = "256 word"

type_synonym block_ptr = "nat option"

record CBlockIndex =
  phashBlock :: uint256
  pprev :: block_ptr
  nHeight :: int
  nStatus :: "32 word"

type_synonym block_heap = "nat \<Rightarrow> CBlockIndex"

text \<open>The error codes of \<open>rpc/protocol.h\<close> that \<open>rpc/game.cpp\<close> uses, by name.\<close>

datatype RPCErrorCode =
  RPC_MISC_ERROR | RPC_DATABASE_ERROR | RPC_INVALID_ADDRESS_OR_KEY
  | RPC_INVALID_PARAMETER | RPC_TYPE_ERROR

text \<open>
  What the code can throw: a \<open>JSONRPCError\<close> with its code and message, a
  \<open>std::runtime_error\<close> (the help text, kept by the name of its command), and a failed
  \<open>assert\<close> (kept by its condition).
\<close>

datatype error =
  JSONRPCError RPCErrorCode string
  | runtime_error string
  | AssertionFailed string

section \<open>GetDetachSequence\<close>

text \<open>
  The status bit \<open>BLOCK_HAVE_DATA\<close> is a constant of \<open>chain.h\<close>; it is a parameter
  (\<open>have_data\<close>) of everything that tests it.
\<close>

definition has_data :: "32 word \<Rightarrow> CBlockIndex \<Rightarrow> bool" where
  "has_data have_data b \<longleftrightarrow> (nStatus b AND have_data) \<noteq> 0"

text \<open>
  The loop of \<open>GetDetachSequence\<close> (game.cpp, 194-204), with the vector \<open>detach\<close> as
  accumulator.  The loop has no bound of its own: on a heap whose parent links never
  reach \<open>ancestor\<close> nor null it runs forever, which is the value \<open>None\<close>.
\<close>

partial_function (option) GetDetachSequence_loop ::
  "32 word \<Rightarrow> block_heap \<Rightarrow> block_ptr \<Rightarrow> block_ptr \<Rightarrow> nat list \<Rightarrow> (error + nat list) option"
where
  "GetDetachSequence_loop have_data heap pindex ancestor detach =
     (if pindex = ancestor then Some (Inr detach)
      else case pindex of
        None \<Rightarrow> Some (Inl (AssertionFailed ''pindex != nullptr''))
      | Some p \<Rightarrow>
          if \<not> has_data have_data (heap p)
          then Some (Inl (JSONRPCError RPC_DATABASE_ERROR ''detached block has no data''))
          else GetDetachSequence_loop have_data heap (pprev (heap p)) ancestor (detach @ [p]))"

definition GetDetachSequence ::
  "32 word \<Rightarrow> block_heap \<Rightarrow> block_ptr \<Rightarrow> block_ptr \<Rightarrow> (error + nat list) option"
where
  "GetDetachSequence have_data heap from ancestor =
     GetDetachSequence_loop have_data heap from ancestor []"

text \<open>
  The walk of the specification: \<open>walk heap from ancestor bs\<close> holds when \<open>bs\<close> are the
  blocks visited by starting at \<open>from\<close> and moving to the parent until \<open>ancestor\<close> is
  reached, \<open>ancestor\<close> excluded.
\<close>

inductive walk :: "block_heap \<Rightarrow> block_ptr \<Rightarrow> block_ptr \<Rightarrow> nat list \<Rightarrow> bool" where
  walk_done: "walk heap ancestor ancestor []"
| walk_step: "Some p \<noteq> ancestor \<Longrightarrow> walk heap (pprev (heap p)) ancestor bs
              \<Longrightarrow> walk heap (Some p) ancestor (p # bs)"

section \<open>Requests, work items and the node state\<close>

text \<open>\<open>UniValue\<close> (the JSON values of the RPC layer) and the type tags of \<open>UniValue::VType\<close>.\<close>

datatype UniValue =
  NullUniValue
  | UniObj "(string \<times> UniValue) list"
  | UniArr "UniValue list"
  | UniStr string
  | UniNum int
  | UniBool bool

datatype VType = VNULL | VOBJ | VARR | VSTR | VNUM | VBOOL

record JSONRPCRequest =
  fHelp :: bool
  params :: "UniValue list"

text \<open>
  \<open>UniValue::get_str\<close> throws a \<open>std::runtime_error\<close> on a value that is not a string; it
  is reached only after \<open>RPCTypeCheck\<close> has accepted the parameters.
\<close>

fun get_str :: "UniValue \<Rightarrow> error + string" where
  "get_str (UniStr s) = Inr s"
| "get_str _ = Inl (runtime_error ''JSON value is not a string as expected'')"

text \<open>\<open>SendUpdatesWorker::Work\<close> (game.h, 29-46).\<close>

record Work =
  reqtoken :: string
  detach :: "nat list"
  attach :: "nat list"
  trackedGames :: "string set"

type_synonym CBlock = "8 word list"

text \<open>The two command prefixes \<open>ZMQGameBlocksNotifier::PREFIX_DETACH\<close> and \<open>PREFIX_ATTACH\<close>.\<close>

datatype command_prefix = PREFIX_DETACH | PREFIX_ATTACH

text \<open>
  One call of \<open>ZMQGameBlocksNotifier::SendBlockNotifications\<close>, which belongs to the ZMQ
  layer: the node state records the calls, with their arguments, in the order they are made.
\<close>

record notification =
  n_games :: "string set"
  n_prefix :: command_prefix
  n_reqtoken :: string
  n_block :: CBlock
  n_pindex :: nat

text \<open>
  The lines \<open>LogPrint (BCLog::GAME, ...)\<close> of game.cpp, one constructor per format string,
  with the value that is printed (the work item stands for its \<open>str ()\<close>).
\<close>

datatype log_event =
  LogReadFailed string
  | LogQueueEmpty bool
  | LogWaiting
  | LogPopped Work
  | LogFinished Work
  | LogNotEnqueueing Work
  | LogEnqueueing Work

text \<open>
  Where the thread \<open>runner\<close> of the worker stands in \<open>SendUpdatesWorker::run\<close>: at the head
  of the loop (about to take the lock), blocked in \<open>cvWork.wait\<close>, outside the lock with a
  popped item to process, after the \<open>break\<close>, or left by an exception.
\<close>

datatype runner_state = LoopHead | CvWait | Processing Work | Exited | Threw error

text \<open>
  The state of the node that game.cpp reads and writes.  \<open>g_send_updates_worker\<close> is the
  only \<open>SendUpdatesWorker\<close>; its members \<open>work\<close>, \<open>interrupted\<close> and \<open>runner\<close> are fields
  of the state, and \<open>worker_exists\<close> says that the pointer is not null.
  \<open>zmq_notification_interface\<close> is \<open>None\<close> for a null \<open>g_zmq_notification_interface\<close>,
  \<open>Some None\<close> when its \<open>GetGameBlocksNotifier ()\<close> is null, and otherwise holds the
  notifier, which is its set of tracked games.  \<open>chainActive_Tip\<close> is the address of the
  tip of the active chain, which line 260 dereferences: the active chain is not empty.
  \<open>published\<close> and \<open>debug_log\<close> record what has been sent and logged so far.
\<close>

record node =
  mapBlockIndex :: "uint256 \<rightharpoonup> nat"
  heap :: block_heap
  chainActive_Tip :: nat
  zmq_notification_interface :: "string set option option"
  worker_exists :: bool
  work :: "Work list"
  interrupted :: bool
  runner :: runner_state
  published :: "notification list"
  debug_log :: "log_event list"

text \<open>
  What game.cpp calls and src/ does not hold: the constant \<open>BLOCK_HAVE_DATA\<close> of chain.h,
  \<open>RPCTypeCheck\<close> and \<open>ParseHashV\<close> of rpc/server.cpp (which return or throw),
  \<open>LastCommonAncestor\<close> of chain.cpp (a pointer, possibly null), \<open>uint256::GetHex\<close>,
  \<open>ReadBlockFromDisk\<close> of validation.cpp (\<open>None\<close> when it returns false) and
  \<open>ZMQGameBlocksNotifier::GetTrackedGames\<close>.  They are parameters of the model.
\<close>

record externals =
  BLOCK_HAVE_DATA :: "32 word"
  RPCTypeCheck :: "UniValue list \<Rightarrow> VType list \<Rightarrow> error option"
  ParseHashV :: "string \<Rightarrow> string \<Rightarrow> error + uint256"
  LastCommonAncestor :: "block_heap \<Rightarrow> nat \<Rightarrow> nat \<Rightarrow> block_ptr"
  GetHex :: "uint256 \<Rightarrow> string"
  ReadBlockFromDisk :: "nat \<Rightarrow> CBlock option"
  GetTrackedGames :: "string set \<Rightarrow> UniValue"

section \<open>The worker\<close>

text \<open>\<open>GetGameBlocksNotifier\<close> (game.cpp, 27-38).\<close>

definition GetGameBlocksNotifier :: "node \<Rightarrow> error + string set" where
  "GetGameBlocksNotifier s =
     (case zmq_notification_interface s of
        None \<Rightarrow> Inl (JSONRPCError RPC_MISC_ERROR ''ZMQ notifications are disabled'')
      | Some None \<Rightarrow> Inl (JSONRPCError RPC_MISC_ERROR ''-zmqpubgameblocks is not set'')
      | Some (Some notifier) \<Rightarrow> Inr notifier)"

text \<open>
  \<open>cvWork.notify_all ()\<close>: a runner blocked in \<open>cvWork.wait\<close> becomes runnable and goes
  back to the head of its loop (the \<open>continue\<close> of line 134).
\<close>

definition notify_all :: "node \<Rightarrow> node" where
  "notify_all s = (if runner s = CvWait then s\<lparr>runner := LoopHead\<rparr> else s)"

text \<open>\<open>SendUpdatesWorker::interrupt\<close> (game.cpp, 158-164), one critical section.\<close>

definition interrupt :: "node \<Rightarrow> node" where
  "interrupt s = notify_all (s\<lparr>interrupted := True\<rparr>)"

text \<open>\<open>SendUpdatesWorker::enqueue\<close> (game.cpp, 166-181), one critical section.\<close>

definition enqueue :: "Work \<Rightarrow> node \<Rightarrow> node" where
  "enqueue w s =
     (if interrupted s
      then s\<lparr>debug_log := debug_log s @ [LogNotEnqueueing w]\<rparr>
      else notify_all (s\<lparr>debug_log := debug_log s @ [LogEnqueueing w],
                          work := work s @ [w]\<rparr>))"

text \<open>
  \<open>SendUpdatesOneBlock\<close> (game.cpp, 89-107).  It returns normally (\<open>None\<close>) or leaves by the
  exception of \<open>GetGameBlocksNotifier\<close>; the state is returned in both cases.
\<close>

definition SendUpdatesOneBlock ::
  "externals \<Rightarrow> string set \<Rightarrow> command_prefix \<Rightarrow> string \<Rightarrow> nat \<Rightarrow> node \<Rightarrow> error option \<times> node"
where
  "SendUpdatesOneBlock ext games commandPrefix tok pindex s =
     (case ReadBlockFromDisk ext pindex of
        None \<Rightarrow>
          (None, s\<lparr>debug_log := debug_log s
                     @ [LogReadFailed (GetHex ext (phashBlock (heap s pindex)))]\<rparr>)
      | Some blk \<Rightarrow>
          (case GetGameBlocksNotifier s of
             Inl e \<Rightarrow> (Some e, s)
           | Inr notifier \<Rightarrow>
               (None, s\<lparr>published := published s
                          @ [\<lparr>n_games = games, n_prefix = commandPrefix, n_reqtoken = tok,
                               n_block = blk, n_pindex = pindex\<rparr>]\<rparr>)))"

text \<open>A range-based \<open>for\<close> loop of \<open>run\<close> over one of the two vectors (lines 144-151).\<close>

fun SendUpdatesBlocks ::
  "externals \<Rightarrow> string set \<Rightarrow> command_prefix \<Rightarrow> string \<Rightarrow> nat list \<Rightarrow> node \<Rightarrow> error option \<times> node"
where
  "SendUpdatesBlocks ext games commandPrefix tok [] s = (None, s)"
| "SendUpdatesBlocks ext games commandPrefix tok (pindex # rest) s =
     (case SendUpdatesOneBlock ext games commandPrefix tok pindex s of
        (Some e, s') \<Rightarrow> (Some e, s')
      | (None, s') \<Rightarrow> SendUpdatesBlocks ext games commandPrefix tok rest s')"

text \<open>The part of the loop body of \<open>run\<close> that is outside the lock (lines 144-153).\<close>

definition process_work :: "externals \<Rightarrow> Work \<Rightarrow> node \<Rightarrow> error option \<times> node" where
  "process_work ext w s =
     (case SendUpdatesBlocks ext (trackedGames w) PREFIX_DETACH (reqtoken w) (detach w) s of
        (Some e, s1) \<Rightarrow> (Some e, s1)
      | (None, s1) \<Rightarrow>
          (case SendUpdatesBlocks ext (trackedGames w) PREFIX_ATTACH (reqtoken w) (attach w) s1 of
             (Some e, s2) \<Rightarrow> (Some e, s2)
           | (None, s2) \<Rightarrow> (None, s2\<lparr>debug_log := debug_log s2 @ [LogFinished w]\<rparr>)))"

text \<open>
  One step of the thread in \<open>SendUpdatesWorker::run\<close> (game.cpp, 111-156).  The loop is cut
  where the lock \<open>csWork\<close> is taken and released: a step from \<open>LoopHead\<close> is the critical
  section of lines 119-142, a step from \<open>Processing w\<close> is the work outside the lock.  A
  thread blocked in \<open>wait\<close>, or one that has left \<open>run\<close>, does nothing.
\<close>

definition run_step :: "externals \<Rightarrow> node \<Rightarrow> node" where
  "run_step ext s =
     (case runner s of
        LoopHead \<Rightarrow>
          (case work s of
             [] \<Rightarrow>
               (let s1 = s\<lparr>debug_log := debug_log s @ [LogQueueEmpty (interrupted s)]\<rparr>
                in if interrupted s1 then s1\<lparr>runner := Exited\<rparr>
                   else s1\<lparr>debug_log := debug_log s1 @ [LogWaiting], runner := CvWait\<rparr>)
           | w # rest \<Rightarrow>
               s\<lparr>work := rest, debug_log := debug_log s @ [LogPopped w],
                 runner := Processing w\<rparr>)
      | Processing w \<Rightarrow>
          (case process_work ext w s of
             (Some e, s') \<Rightarrow> s'\<lparr>runner := Threw e\<rparr>
           | (None, s') \<Rightarrow> s'\<lparr>runner := LoopHead\<rparr>)
      | CvWait \<Rightarrow> s
      | Exited \<Rightarrow> s
      | Threw e \<Rightarrow> s)"

text \<open>
  The threads share \<open>work\<close> and \<open>interrupted\<close> only under \<open>csWork\<close>, so an execution is a
  sequence of events: a producer completes \<open>enqueue\<close>, some thread completes \<open>interrupt\<close>,
  the runner takes its next step, or a runner blocked in \<open>wait\<close> wakes up spuriously.
\<close>

datatype event = EvEnqueue Work | EvInterrupt | EvRunner | EvSpuriousWakeup

fun step :: "externals \<Rightarrow> event \<Rightarrow> node \<Rightarrow> node" where
  "step ext (EvEnqueue w) s = enqueue w s"
| "step ext EvInterrupt s = interrupt s"
| "step ext EvRunner s = run_step ext s"
| "step ext EvSpuriousWakeup s = notify_all s"

fun exec :: "externals \<Rightarrow> event list \<Rightarrow> node \<Rightarrow> node" where
  "exec ext [] s = s"
| "exec ext (e # es) s = exec ext es (step ext e s)"

text \<open>
  The constructor \<open>SendUpdatesWorker ()\<close> (game.cpp, 69-76): not interrupted, an empty
  queue, and the thread started.
\<close>

definition SendUpdatesWorker :: "node \<Rightarrow> node" where
  "SendUpdatesWorker s =
     s\<lparr>worker_exists := True, work := [], interrupted := False, runner := LoopHead\<rparr>"

section \<open>game_sendupdates and trackedgames\<close>

text \<open>
  The head of \<open>game_sendupdates\<close> (game.cpp, 213-261): the help and arity check, the type
  check, the game id and the two block hashes.  \<open>params ! 0\<close> and \<open>params ! 1\<close> are read
  after the arity check, \<open>params ! 2\<close> only when there are three parameters.
\<close>

definition parse_params ::
  "externals \<Rightarrow> JSONRPCRequest \<Rightarrow> node \<Rightarrow> error + (string \<times> uint256 \<times> uint256)"
where
  "parse_params ext request s =
     (if fHelp request \<or> length (params request) < 2 \<or> length (params request) > 3
      then Inl (runtime_error ''game_sendupdates'')
      else case RPCTypeCheck ext (params request) [VSTR, VSTR, VSTR] of
        Some e \<Rightarrow> Inl e
      | None \<Rightarrow>
         (case get_str (params request ! 0) of
            Inl e \<Rightarrow> Inl e
          | Inr gameid \<Rightarrow>
             (case get_str (params request ! 1) of
                Inl e \<Rightarrow> Inl e
              | Inr fromStr \<Rightarrow>
                 (case ParseHashV ext fromStr ''fromblock'' of
                    Inl e \<Rightarrow> Inl e
                  | Inr fromBlock \<Rightarrow>
                     (if length (params request) \<ge> 3
                      then (case get_str (params request ! 2) of
                              Inl e \<Rightarrow> Inl e
                            | Inr toStr \<Rightarrow>
                               (case ParseHashV ext toStr ''toblock'' of
                                  Inl e \<Rightarrow> Inl e
                                | Inr toBlock \<Rightarrow> Inr (gameid, fromBlock, toBlock)))
                      else Inr (gameid, fromBlock,
                                phashBlock (heap s (chainActive_Tip s))))))))"

text \<open>
  Lines 282-287 of \<open>game_sendupdates\<close>: the common ancestor, the detach sequence from
  \<open>fromIndex\<close>, and the attach sequence, which is the sequence from \<open>toIndex\<close> reversed.
\<close>

definition sendupdates_sequences ::
  "externals \<Rightarrow> block_heap \<Rightarrow> nat \<Rightarrow> nat \<Rightarrow> (error + (nat \<times> nat list \<times> nat list)) option"
where
  "sendupdates_sequences ext h fromIndex toIndex =
     (case LastCommonAncestor ext h fromIndex toIndex of
        None \<Rightarrow> Some (Inl (AssertionFailed ''ancestor != nullptr''))
      | Some ancestor \<Rightarrow>
          Option.bind
            (GetDetachSequence (BLOCK_HAVE_DATA ext) h (Some fromIndex) (Some ancestor))
            (\<lambda>r1. case r1 of
               Inl e \<Rightarrow> Some (Inl e)
             | Inr det \<Rightarrow>
                 Option.bind
                   (GetDetachSequence (BLOCK_HAVE_DATA ext) h (Some toIndex) (Some ancestor))
                   (\<lambda>r2. case r2 of
                      Inl e \<Rightarrow> Some (Inl e)
                    | Inr att \<Rightarrow> Some (Inr (ancestor, det, rev att)))))"

text \<open>The JSON object returned by \<open>game_sendupdates\<close> (lines 289-296).\<close>

definition sendupdates_result ::
  "externals \<Rightarrow> uint256 \<Rightarrow> uint256 \<Rightarrow> string \<Rightarrow> nat \<Rightarrow> nat \<Rightarrow> UniValue"
where
  "sendupdates_result ext toBlock ancestorHash tok ndetach nattach =
     UniObj [(''toblock'', UniStr (GetHex ext toBlock)),
             (''ancestor'', UniStr (GetHex ext ancestorHash)),
             (''reqtoken'', UniStr tok),
             (''steps'', UniObj [(''detach'', UniNum (int ndetach)),
                                 (''attach'', UniNum (int nattach))])]"

text \<open>
  \<open>game_sendupdates\<close> (game.cpp, 210-307), built with ZMQ.  \<open>tok\<close> is the request token,
  the hex string of the 16 bytes that \<open>GetRandBytes\<close> gives (lines 249-251).  The result
  is what is returned or thrown, with the state after the call; it is \<open>None\<close> when a
  walk of \<open>GetDetachSequence\<close> does not end.
\<close>

definition game_sendupdates ::
  "externals \<Rightarrow> string \<Rightarrow> JSONRPCRequest \<Rightarrow> node \<Rightarrow> ((error + UniValue) \<times> node) option"
where
  "game_sendupdates ext tok request s =
     (case parse_params ext request s of
        Inl e \<Rightarrow> Some (Inl e, s)
      | Inr (gameid, fromBlock, toBlock) \<Rightarrow>
         (case mapBlockIndex s fromBlock of
            None \<Rightarrow> Some (Inl (JSONRPCError RPC_INVALID_ADDRESS_OR_KEY ''fromblock not found''), s)
          | Some fromIndex \<Rightarrow>
             (case mapBlockIndex s toBlock of
                None \<Rightarrow> Some (Inl (JSONRPCError RPC_INVALID_ADDRESS_OR_KEY ''toblock not found''), s)
              | Some toIndex \<Rightarrow>
                 if \<not> has_data (BLOCK_HAVE_DATA ext) (heap s fromIndex)
                 then Some (Inl (JSONRPCError RPC_DATABASE_ERROR ''fromblock has no data''), s)
                 else if \<not> has_data (BLOCK_HAVE_DATA ext) (heap s toIndex)
                 then Some (Inl (JSONRPCError RPC_DATABASE_ERROR ''toblock has no data''), s)
                 else
                   Option.bind (sendupdates_sequences ext (heap s) fromIndex toIndex)
                     (\<lambda>r. case r of
                        Inl e \<Rightarrow> Some (Inl e, s)
                      | Inr (ancestor, det, att) \<Rightarrow>
                         (let w = \<lparr>reqtoken = tok, detach = det, attach = att,
                                   trackedGames = {gameid}\<rparr>;
                              result = sendupdates_result ext toBlock
                                         (phashBlock (heap s ancestor)) tok
                                         (length (detach w)) (length (attach w))
                          in case GetGameBlocksNotifier s of
                               Inl e \<Rightarrow> Some (Inl e, s)
                             | Inr notifier \<Rightarrow>
                                 if \<not> worker_exists s
                                 then Some (Inl (AssertionFailed
                                                   ''g_send_updates_worker != nullptr''), s)
                                 else Some (Inr result, enqueue w s))))))"

text \<open>
  Modelled from the spec: \<open>AddTrackedGame\<close> and \<open>RemoveTrackedGame\<close> of the notifier are
  not under src/; the registry has set semantics, with idempotent add and remove.
\<close>

definition AddTrackedGame :: "string \<Rightarrow> string set \<Rightarrow> string set" where
  "AddTrackedGame gameid games = insert gameid games"

definition RemoveTrackedGame :: "string \<Rightarrow> string set \<Rightarrow> string set" where
  "RemoveTrackedGame gameid games = games - {gameid}"

text \<open>\<open>trackedgames\<close> (game.cpp, 314-365), built with ZMQ.\<close>

definition trackedgames ::
  "externals \<Rightarrow> JSONRPCRequest \<Rightarrow> node \<Rightarrow> (error + UniValue) \<times> node"
where
  "trackedgames ext request s =
     (if fHelp request \<or> (length (params request) \<noteq> 0 \<and> length (params request) \<noteq> 2)
      then (Inl (runtime_error ''trackedgames''), s)
      else case RPCTypeCheck ext (params request) [VSTR, VSTR] of
        Some e \<Rightarrow> (Inl e, s)
      | None \<Rightarrow>
         (case GetGameBlocksNotifier s of
            Inl e \<Rightarrow> (Inl e, s)
          | Inr notifier \<Rightarrow>
             if length (params request) = 0
             then (Inr (GetTrackedGames ext notifier), s)
             else
               (case get_str (params request ! 0) of
                  Inl e \<Rightarrow> (Inl e, s)
                | Inr cmd \<Rightarrow>
                   (case get_str (params request ! 1) of
                      Inl e \<Rightarrow> (Inl e, s)
                    | Inr gameid \<Rightarrow>
                       if cmd = ''add''
                       then (Inr NullUniValue,
                             s\<lparr>zmq_notification_interface :=
                                 Some (Some (AddTrackedGame gameid notifier))\<rparr>)
                       else if cmd = ''remove''
                       then (Inr NullUniValue,
                             s\<lparr>zmq_notification_interface :=
                                 Some (Some (RemoveTrackedGame gameid notifier))\<rparr>)
                       else (Inl (JSONRPCError RPC_INVALID_PARAMETER
                                    (''invalid command for trackedgames: '' @ cmd)), s)))))"

text \<open>
  Modelled from the spec: \<open>LastCommonAncestor\<close> of chain.cpp is not under src/.  The
  common ancestor of \<open>a\<close> and \<open>b\<close> is the deepest block reachable by following parent links
  from both.  \<open>ancestors h n p\<close> follows at most \<open>n\<close> parent links from \<open>p\<close>; a block at
  height \<open>k\<close> has \<open>k + 1\<close> blocks on its way to the root, itself included.  The first
  block on the way up from \<open>a\<close> that is also on the way up from \<open>b\<close> is the deepest one;
  there is none when the two share no ancestor.
\<close>

fun ancestors :: "block_heap \<Rightarrow> nat \<Rightarrow> block_ptr \<Rightarrow> nat list" where
  "ancestors h 0 p = []"
| "ancestors h (Suc n) None = []"
| "ancestors h (Suc n) (Some b) = b # ancestors h n (pprev (h b))"

definition LastCommonAncestor_spec :: "block_heap \<Rightarrow> nat \<Rightarrow> nat \<Rightarrow> block_ptr" where
  "LastCommonAncestor_spec h a b =
     find (\<lambda>x. x \<in> set (ancestors h (Suc (nat (nHeight (h b)))) (Some b)))
          (ancestors h (Suc (nat (nHeight (h a)))) (Some a))"

section \<open>Notions of the specification\<close>

text \<open>
  What a walk of \<open>GetDetachSequence\<close> that ends can give: the accumulator followed by the
  blocks of the walk, all of them with data, or one of its two errors.
\<close>

definition walk_result ::
  "32 word \<Rightarrow> block_heap \<Rightarrow> block_ptr \<Rightarrow> block_ptr \<Rightarrow> nat list \<Rightarrow> error + nat list \<Rightarrow> bool"
where
  "walk_result hv h from anc acc y =
     (case y of
        Inr r \<Rightarrow> \<exists>bs. r = acc @ bs \<and> walk h from anc bs \<and> (\<forall>b\<in>set bs. has_data hv (h b))
      | Inl e \<Rightarrow> e = AssertionFailed ''pindex != nullptr''
                \<or> e = JSONRPCError RPC_DATABASE_ERROR ''detached block has no data'')"

text \<open>
  The blocks strictly between a tip and an ancestor: the walk that starts at the parent
  of the tip, so that neither the tip nor the ancestor is among them.
\<close>

definition strictly_between :: "block_heap \<Rightarrow> nat \<Rightarrow> block_ptr \<Rightarrow> nat list \<Rightarrow> bool" where
  "strictly_between h tip anc bs \<longleftrightarrow> walk h (pprev (h tip)) anc bs"

text \<open>Consecutive blocks of a list are linked child to parent.\<close>

definition child_before_parent :: "block_heap \<Rightarrow> nat list \<Rightarrow> bool" where
  "child_before_parent h bs \<longleftrightarrow>
     (\<forall>i. Suc i < length bs \<longrightarrow> pprev (h (bs ! i)) = Some (bs ! Suc i))"

text \<open>Consecutive blocks of a list are linked parent to child.\<close>

definition parent_before_child :: "block_heap \<Rightarrow> nat list \<Rightarrow> bool" where
  "parent_before_child h bs \<longleftrightarrow>
     (\<forall>i. Suc i < length bs \<longrightarrow> pprev (h (bs ! Suc i)) = Some (bs ! i))"

text \<open>
  The notification that one block of a work item gives when its block can be read, and
  the notifications of a whole item: those of its detach list, then those of its attach
  list, each in the order of the list.
\<close>

definition block_notification ::
  "externals \<Rightarrow> string set \<Rightarrow> command_prefix \<Rightarrow> string \<Rightarrow> nat \<Rightarrow> notification option"
where
  "block_notification ext games commandPrefix tok pindex =
     map_option (\<lambda>blk. \<lparr>n_games = games, n_prefix = commandPrefix, n_reqtoken = tok,
                        n_block = blk, n_pindex = pindex\<rparr>)
                (ReadBlockFromDisk ext pindex)"

definition notifications_of :: "externals \<Rightarrow> Work \<Rightarrow> notification list" where
  "notifications_of ext w =
     List.map_filter (block_notification ext (trackedGames w) PREFIX_DETACH (reqtoken w))
                     (detach w)
     @ List.map_filter (block_notification ext (trackedGames w) PREFIX_ATTACH (reqtoken w))
                       (attach w)"

definition all_notifications :: "externals \<Rightarrow> Work list \<Rightarrow> notification list" where
  "all_notifications ext ws = concat (map (notifications_of ext) ws)"

text \<open>
  The items of the \<open>enqueue\<close> calls of a schedule, in the order of the calls, and the
  accepted ones: those enqueued before the first \<open>interrupt\<close>.
\<close>

fun enqueued :: "event list \<Rightarrow> Work list" where
  "enqueued [] = []"
| "enqueued (EvEnqueue w # es) = w # enqueued es"
| "enqueued (e # es) = enqueued es"

definition accepted :: "event list \<Rightarrow> Work list" where
  "accepted es = enqueued (takeWhile (\<lambda>e. e \<noteq> EvInterrupt) es)"

text \<open>The items that the worker holds: the one in the hands of the runner, then the queue.\<close>

definition pending :: "node \<Rightarrow> Work list" where
  "pending s = (case runner s of Processing w \<Rightarrow> [w] | _ \<Rightarrow> []) @ work s"

text \<open>
  \<open>sends_only s s'\<close>: from \<open>s\<close> to \<open>s'\<close> nothing changed but the notifications sent and
  the debug log.
\<close>

definition sends_only :: "node \<Rightarrow> node \<Rightarrow> bool" where
  "sends_only s s' \<longleftrightarrow> s' = s\<lparr>published := published s', debug_log := debug_log s'\<rparr>"

section \<open>An example chain\<close>

text \<open>
  The reorganisation of the specification: \<open>Genesis-A-B-C\<close> with old tip \<open>C\<close>, and
  \<open>Genesis-A-B-D-E\<close> with new tip \<open>E\<close>.  The blocks are at the addresses 0 to 5 in the
  order \<open>Genesis, A, B, C, D, E\<close>; the block at address \<open>p\<close> has the hash \<open>100 + p\<close>, and
  every block has its data (\<open>BLOCK_HAVE_DATA\<close> is 8 in the example).
\<close>

definition example_heap :: block_heap where
  "example_heap p =
     \<lparr>phashBlock = 100 + of_nat p,
      pprev = (if p = 0 then None else if p = 4 then Some 2 else Some (p - 1)),
      nHeight = (if p = 4 then 3 else if p = 5 then 4 else int p),
      nStatus = 8\<rparr>"

text \<open>The same chain after the data of \<open>D\<close> has been pruned.\<close>

definition example_heap_pruned :: block_heap where
  "example_heap_pruned = example_heap (4 := (example_heap 4)\<lparr>nStatus := 0\<rparr>)"

definition example_hashes :: "(string \<times> uint256) list" where
  "example_hashes = [(''hashG'', 100), (''hashA'', 101), (''hashB'', 102),
                     (''hashC'', 103), (''hashD'', 104), (''hashE'', 105)]"

definition example_ext :: externals where
  "example_ext =
     \<lparr>BLOCK_HAVE_DATA = 8,
      RPCTypeCheck = (\<lambda>ps ts. if list_all (\<lambda>v. case v of UniStr str \<Rightarrow> True | _ \<Rightarrow> False) ps
                               then None
                               else Some (JSONRPCError RPC_TYPE_ERROR ''Expected type string'')),
      ParseHashV = (\<lambda>str name. case map_of example_hashes str of
                                  Some h \<Rightarrow> Inr h
                                | None \<Rightarrow> Inl (JSONRPCError RPC_INVALID_PARAMETER
                                               (name @ '' must be hexadecimal string''))),
      LastCommonAncestor = LastCommonAncestor_spec,
      GetHex = (\<lambda>h. case map_of (map (\<lambda>(str, h). (h, str)) example_hashes) h of
                       Some str \<Rightarrow> str | None \<Rightarrow> []),
      ReadBlockFromDisk = (\<lambda>pindex. Some [of_nat pindex]),
      GetTrackedGames = (\<lambda>games. UniArr [])\<rparr>"

text \<open>
  A node on this chain with active tip \<open>C\<close>, a notifier that tracks the games \<open>a\<close> and
  \<open>b\<close>, and a worker that has just been constructed.
\<close>

definition example_node :: node where
  "example_node =
     \<lparr>mapBlockIndex = map_of [(100, 0), (101, 1), (102, 2), (103, 3), (104, 4), (105, 5)],
      heap = example_heap,
      chainActive_Tip = 3,
      zmq_notification_interface = Some (Some {''a'', ''b''}),
      worker_exists = True,
      work = [],
      interrupted = False,
      runner = LoopHead,
      published = [],
      debug_log = []\<rparr>"

text \<open>The request \<open>game_sendupdates "huc" C E\<close> and the request \<open>game_sendupdates "huc" C C\<close>.\<close>

definition example_request :: JSONRPCRequest where
  "example_request = \<lparr>fHelp = False, params = [UniStr ''huc'', UniStr ''hashC'', UniStr ''hashE'']\<rparr>"

definition example_request_same :: JSONRPCRequest where
  "example_request_same =
     \<lparr>fHelp = False, params = [UniStr ''huc'', UniStr ''hashC'', UniStr ''hashC'']\<rparr>"

text \<open>The work item of the example request.\<close>

definition example_work :: Work where
  "example_work = \<lparr>reqtoken = ''token'', detach = [3], attach = [4, 5], trackedGames = {''huc''}\<rparr>"



text \<open>
  Two schedules: one item is enqueued, the worker is interrupted, and the runner takes
  three steps; two items are enqueued and the runner takes four steps.
\<close>

definition example_schedule :: "event list" where
  "example_schedule = [EvEnqueue example_work, EvInterrupt, EvRunner, EvRunner, EvRunner]"




section \<open>The walk and GetDetachSequence\<close>

text \<open>
  On a walk whose blocks all have their data the loop returns the walk; on a walk with a
  block without data it throws; and whatever the loop returns is a walk.
\<close>

lemma GetDetachSequence_loop_walk:
  "walk h from anc bs \<Longrightarrow> \<forall>b\<in>set bs. has_data hv (h b)
   \<Longrightarrow> GetDetachSequence_loop hv h from anc acc = Some (Inr (acc @ bs))"
proof (induction arbitrary: acc rule: walk.induct)
  case (walk_done h anc)
  show ?case by (subst GetDetachSequence_loop.simps) simp
next
  case (walk_step p anc h bs)
  from walk_step.prems have d: "has_data hv (h p)" and r: "\<forall>b\<in>set bs. has_data hv (h b)"
    by simp_all
  show ?case
    by (subst GetDetachSequence_loop.simps) (simp add: walk_step.hyps(1) d walk_step.IH [OF r])
qed

lemma GetDetachSequence_loop_nodata:
  "walk h from anc bs \<Longrightarrow> \<exists>b\<in>set bs. \<not> has_data hv (h b)
   \<Longrightarrow> GetDetachSequence_loop hv h from anc acc
       = Some (Inl (JSONRPCError RPC_DATABASE_ERROR ''detached block has no data''))"
proof (induction arbitrary: acc rule: walk.induct)
  case (walk_done h anc)
  then show ?case by simp
next
  case (walk_step p anc h bs)
  show ?case
  proof (cases "has_data hv (h p)")
    case True
    with walk_step.prems have "\<exists>b\<in>set bs. \<not> has_data hv (h b)" by auto
    from walk_step.IH [OF this] show ?thesis
      by (subst GetDetachSequence_loop.simps) (simp add: walk_step.hyps(1) True)
  next
    case False
    then show ?thesis
      by (subst GetDetachSequence_loop.simps) (simp add: walk_step.hyps(1))
  qed
qed

lemma GetDetachSequence_loop_Some:
  assumes "GetDetachSequence_loop hv h from anc acc = Some y"
  shows "walk_result hv h from anc acc y"
proof (rule GetDetachSequence_loop.raw_induct [where P = walk_result, OF _ assms], goal_cases)
  case (1 loop hv h pindex anc acc y)
  show ?case
  proof (cases "pindex = anc")
    case True
    with 1(2) show ?thesis by (auto simp: walk_result_def intro: walk.intros)
  next
    case False
    note ne = this
    show ?thesis
    proof (cases pindex)
      case None
      with ne 1(2) show ?thesis by (auto simp: walk_result_def)
    next
      case (Some p)
      show ?thesis
      proof (cases "has_data hv (h p)")
        case False
        with ne Some 1(2) show ?thesis by (auto simp: walk_result_def)
      next
        case True
        with ne Some 1(2) have l: "loop hv h (pprev (h p)) anc (acc @ [p]) = Some y" by simp
        have ih: "walk_result hv h (pprev (h p)) anc (acc @ [p]) y" by (rule 1(1) [OF l])
        show ?thesis
        proof (cases y)
          case (Inl e)
          with ih show ?thesis by (simp add: walk_result_def)
        next
          case (Inr r)
          with ih obtain bs where "r = (acc @ [p]) @ bs" "walk h (pprev (h p)) anc bs"
            "\<forall>b\<in>set bs. has_data hv (h b)" by (auto simp: walk_result_def)
          with Some True ne Inr show ?thesis
            by (auto simp: walk_result_def intro!: exI [of _ "p # bs"] intro: walk.intros)
        qed
      qed
    qed
  qed
qed

lemma walk_unique: "walk h from anc bs \<Longrightarrow> walk h from anc cs \<Longrightarrow> bs = cs"
proof (induction arbitrary: cs rule: walk.induct)
  case (walk_done h anc)
  then show ?case by (auto elim: walk.cases)
next
  case (walk_step p anc h bs)
  from walk_step.prems walk_step.hyps(1) obtain cs' where "cs = p # cs'" "walk h (pprev (h p)) anc cs'"
    by (auto elim: walk.cases)
  with walk_step.IH show ?case by simp
qed

lemma walk_not_ancestor: "walk h from anc bs \<Longrightarrow> anc \<notin> Some ` set bs"
  by (induction rule: walk.induct) auto

lemma walk_chain:
  "walk h from anc bs \<Longrightarrow> bs \<noteq> [] \<Longrightarrow>
     from = Some (hd bs) \<and> (\<forall>i. Suc i < length bs \<longrightarrow> pprev (h (bs ! i)) = Some (bs ! Suc i))
     \<and> pprev (h (last bs)) = anc"
proof (induction rule: walk.induct)
  case (walk_done h anc)
  then show ?case by simp
next
  case (walk_step p anc h bs)
  show ?case
  proof (cases bs)
    case Nil
    with walk_step.hyps(2) have "pprev (h p) = anc" by (auto elim: walk.cases)
    with Nil show ?thesis by simp
  next
    case (Cons b bs')
    with walk_step.IH have ih: "pprev (h p) = Some (hd bs)"
      "\<forall>i. Suc i < length bs \<longrightarrow> pprev (h (bs ! i)) = Some (bs ! Suc i)"
      "pprev (h (last bs)) = anc" by simp_all
    have "\<forall>i. Suc i < length (p # bs) \<longrightarrow> pprev (h ((p # bs) ! i)) = Some ((p # bs) ! Suc i)"
    proof (intro allI impI)
      fix i assume "Suc i < length (p # bs)"
      then show "pprev (h ((p # bs) ! i)) = Some ((p # bs) ! Suc i)"
        using ih(1,2) Cons by (cases i) (simp_all add: hd_conv_nth)
    qed
    with ih(3) Cons show ?thesis by simp
  qed
qed

lemma GetDetachSequence_walk:
  "walk h from anc bs \<Longrightarrow> \<forall>b\<in>set bs. has_data hv (h b)
   \<Longrightarrow> GetDetachSequence hv h from anc = Some (Inr bs)"
  using GetDetachSequence_loop_walk [of h "from" anc bs hv "[]"]
  by (simp add: GetDetachSequence_def)

lemma GetDetachSequence_nodata:
  "walk h from anc bs \<Longrightarrow> \<exists>b\<in>set bs. \<not> has_data hv (h b)
   \<Longrightarrow> GetDetachSequence hv h from anc
       = Some (Inl (JSONRPCError RPC_DATABASE_ERROR ''detached block has no data''))"
  using GetDetachSequence_loop_nodata [of h "from" anc bs hv "[]"]
  by (simp add: GetDetachSequence_def)

lemma GetDetachSequence_Inr:
  assumes "GetDetachSequence hv h from anc = Some (Inr r)"
  shows "walk h from anc r \<and> (\<forall>b\<in>set r. has_data hv (h b))"
  using GetDetachSequence_loop_Some [of hv h "from" anc "[]" "Inr r"] assms
  by (simp add: GetDetachSequence_def walk_result_def)

lemma sendupdates_sequences_walk:
  assumes "LastCommonAncestor ext h f t = Some a"
    and "walk h (Some f) (Some a) xs" and "walk h (Some t) (Some a) ys"
    and "\<forall>b\<in>set (xs @ ys). has_data (BLOCK_HAVE_DATA ext) (h b)"
  shows "sendupdates_sequences ext h f t = Some (Inr (a, xs, rev ys))"
proof -
  from assms(4) have dx: "\<forall>b\<in>set xs. has_data (BLOCK_HAVE_DATA ext) (h b)"
    and dy: "\<forall>b\<in>set ys. has_data (BLOCK_HAVE_DATA ext) (h b)" by simp_all
  show ?thesis
    by (simp add: sendupdates_sequences_def assms(1)
          GetDetachSequence_walk [OF assms(2) dx] GetDetachSequence_walk [OF assms(3) dy])
qed

lemma sendupdates_sequences_nodata:
  assumes "LastCommonAncestor ext h f t = Some a"
    and "walk h (Some f) (Some a) xs" and "walk h (Some t) (Some a) ys"
    and "\<exists>b\<in>set (xs @ ys). \<not> has_data (BLOCK_HAVE_DATA ext) (h b)"
  shows "sendupdates_sequences ext h f t
           = Some (Inl (JSONRPCError RPC_DATABASE_ERROR ''detached block has no data''))"
proof (cases "\<forall>b\<in>set xs. has_data (BLOCK_HAVE_DATA ext) (h b)")
  case True
  with assms(4) have "\<exists>b\<in>set ys. \<not> has_data (BLOCK_HAVE_DATA ext) (h b)" by auto
  from GetDetachSequence_nodata [OF assms(3) this] GetDetachSequence_walk [OF assms(2) True]
  show ?thesis by (simp add: sendupdates_sequences_def assms(1))
next
  case False
  then have "\<exists>b\<in>set xs. \<not> has_data (BLOCK_HAVE_DATA ext) (h b)" by simp
  from GetDetachSequence_nodata [OF assms(2) this]
  show ?thesis by (simp add: sendupdates_sequences_def assms(1))
qed

lemma sendupdates_sequences_Inr:
  assumes "sendupdates_sequences ext h f t = Some (Inr (a, det, att))"
  shows "LastCommonAncestor ext h f t = Some a"
    and "GetDetachSequence (BLOCK_HAVE_DATA ext) h (Some f) (Some a) = Some (Inr det)"
    and "GetDetachSequence (BLOCK_HAVE_DATA ext) h (Some t) (Some a) = Some (Inr (rev att))"
proof -
  from assms obtain a' where l: "LastCommonAncestor ext h f t = Some a'"
    by (cases "LastCommonAncestor ext h f t") (simp_all add: sendupdates_sequences_def)
  from assms l obtain r1 where
    g1: "GetDetachSequence (BLOCK_HAVE_DATA ext) h (Some f) (Some a') = Some r1"
    by (cases "GetDetachSequence (BLOCK_HAVE_DATA ext) h (Some f) (Some a')")
       (simp_all add: sendupdates_sequences_def)
  from assms l g1 obtain d where r1: "r1 = Inr d"
    by (cases r1) (simp_all add: sendupdates_sequences_def)
  from assms l g1 r1 obtain r2 where
    g2: "GetDetachSequence (BLOCK_HAVE_DATA ext) h (Some t) (Some a') = Some r2"
    by (cases "GetDetachSequence (BLOCK_HAVE_DATA ext) h (Some t) (Some a')")
       (simp_all add: sendupdates_sequences_def)
  from assms l g1 r1 g2 obtain y where r2: "r2 = Inr y"
    by (cases r2) (simp_all add: sendupdates_sequences_def)
  from assms l g1 r1 g2 r2 have e: "a' = a" "d = det" "rev y = att"
    by (simp_all add: sendupdates_sequences_def)
  from e(3) have "y = rev att" by auto
  with l g1 r1 g2 r2 e
  show "LastCommonAncestor ext h f t = Some a"
    and "GetDetachSequence (BLOCK_HAVE_DATA ext) h (Some f) (Some a) = Some (Inr det)"
    and "GetDetachSequence (BLOCK_HAVE_DATA ext) h (Some t) (Some a) = Some (Inr (rev att))"
    by simp_all
qed

lemma walk_links:
  assumes "walk h (Some f) anc bs" "Some f \<noteq> anc"
  shows "bs \<noteq> []" "hd bs = f" "child_before_parent h bs" "pprev (h (last bs)) = anc"
proof -
  from assms show ne: "bs \<noteq> []" by (auto elim: walk.cases)
  from walk_chain [OF assms(1) ne]
  show "hd bs = f" "child_before_parent h bs" "pprev (h (last bs)) = anc"
    by (simp_all add: child_before_parent_def)
qed

lemma walk_child_before_parent: "walk h from anc bs \<Longrightarrow> child_before_parent h bs"
  using walk_chain [of h "from" anc bs]
  by (cases "bs = []") (simp_all add: child_before_parent_def)

lemma parent_before_child_rev:
  assumes "child_before_parent h bs"
  shows "parent_before_child h (rev bs)"
  unfolding parent_before_child_def
proof (intro allI impI)
  fix i assume i: "Suc i < length (rev bs)"
  then have a: "rev bs ! Suc i = bs ! (length bs - Suc (Suc i))"
    and b: "rev bs ! i = bs ! (length bs - Suc i)"
    by (simp_all add: rev_nth)
  from i have "Suc (length bs - Suc (Suc i)) < length bs"
    and "Suc (length bs - Suc (Suc i)) = length bs - Suc i" by simp_all
  with assms have "pprev (h (bs ! (length bs - Suc (Suc i)))) = Some (bs ! (length bs - Suc i))"
    unfolding child_before_parent_def by metis
  with a b show "pprev (h (rev bs ! Suc i)) = Some (rev bs ! i)" by simp
qed

section \<open>Sending the notifications of a work item\<close>

text \<open>
  Sending changes only the list of notifications and the debug log.  With a notifier the
  loops never throw and send the notifications of the readable blocks; without one
  nothing is sent.
\<close>

lemma sends_only_refl [simp]: "sends_only s s"
  by (simp add: sends_only_def)

lemma sends_only_trans: "sends_only s s1 \<Longrightarrow> sends_only s1 s2 \<Longrightarrow> sends_only s s2"
  unfolding sends_only_def by (metis node.update_convs(9,10) node.surjective node.select_convs(9,10))

lemma sends_only_upd [simp]:
  "sends_only s (s\<lparr>published := P\<rparr>)" "sends_only s (s\<lparr>debug_log := L\<rparr>)"
  by (simp_all add: sends_only_def)

lemma sends_only_fields:
  assumes "sends_only s s'"
  shows "work s' = work s" "interrupted s' = interrupted s" "runner s' = runner s"
    "zmq_notification_interface s' = zmq_notification_interface s" "heap s' = heap s"
    "mapBlockIndex s' = mapBlockIndex s" "worker_exists s' = worker_exists s"
    "chainActive_Tip s' = chainActive_Tip s"
    "GetGameBlocksNotifier s' = GetGameBlocksNotifier s"
proof -
  from assms have e: "s' = s\<lparr>published := published s', debug_log := debug_log s'\<rparr>"
    by (simp add: sends_only_def)
  show "work s' = work s" by (subst e) simp
  show "interrupted s' = interrupted s" by (subst e) simp
  show "runner s' = runner s" by (subst e) simp
  show "zmq_notification_interface s' = zmq_notification_interface s" by (subst e) simp
  then show "GetGameBlocksNotifier s' = GetGameBlocksNotifier s" by (simp add: GetGameBlocksNotifier_def)
  show "heap s' = heap s" by (subst e) simp
  show "mapBlockIndex s' = mapBlockIndex s" by (subst e) simp
  show "worker_exists s' = worker_exists s" by (subst e) simp
  show "chainActive_Tip s' = chainActive_Tip s" by (subst e) simp
qed

lemma SendUpdatesOneBlock_shape:
  "sends_only s (snd (SendUpdatesOneBlock ext g c tok b s))"
  by (simp add: SendUpdatesOneBlock_def split: option.splits sum.splits)

lemma GetGameBlocksNotifier_frame [simp]:
  "GetGameBlocksNotifier (s\<lparr>published := P, debug_log := L\<rparr>) = GetGameBlocksNotifier s"
  "GetGameBlocksNotifier (s\<lparr>published := P\<rparr>) = GetGameBlocksNotifier s"
  "GetGameBlocksNotifier (s\<lparr>debug_log := L\<rparr>) = GetGameBlocksNotifier s"
  "GetGameBlocksNotifier (s\<lparr>runner := r\<rparr>) = GetGameBlocksNotifier s"
  "GetGameBlocksNotifier (s\<lparr>work := q\<rparr>) = GetGameBlocksNotifier s"
  "GetGameBlocksNotifier (s\<lparr>interrupted := i\<rparr>) = GetGameBlocksNotifier s"
  by (simp_all add: GetGameBlocksNotifier_def)

lemma SendUpdatesBlocks_shape:
  "sends_only s (snd (SendUpdatesBlocks ext g c tok bs s))"
proof (induction bs arbitrary: s)
  case Nil
  show ?case by simp
next
  case (Cons b bs)
  obtain r s1 where one: "SendUpdatesOneBlock ext g c tok b s = (r, s1)" by force
  from SendUpdatesOneBlock_shape [of s ext g c tok b] one
  have s1: "sends_only s s1" by simp
  show ?case
  proof (cases r)
    case (Some e)
    with one s1 show ?thesis by simp
  next
    case None
    from sends_only_trans [OF s1 Cons.IH [of s1]] one None show ?thesis by simp
  qed
qed

lemma SendUpdatesBlocks_ok:
  assumes "GetGameBlocksNotifier s = Inr n"
  shows "fst (SendUpdatesBlocks ext g c tok bs s) = None
         \<and> published (snd (SendUpdatesBlocks ext g c tok bs s))
             = published s @ List.map_filter (block_notification ext g c tok) bs"
  using assms
proof (induction bs arbitrary: s)
  case Nil
  show ?case by simp
next
  case (Cons b bs)
  show ?case
  proof (cases "ReadBlockFromDisk ext b")
    case None
    let ?s1 = "s\<lparr>debug_log := debug_log s @ [LogReadFailed (GetHex ext (phashBlock (heap s b)))]\<rparr>"
    from None have one: "SendUpdatesOneBlock ext g c tok b s = (None, ?s1)"
      by (simp add: SendUpdatesOneBlock_def)
    from Cons.prems have "GetGameBlocksNotifier ?s1 = Inr n" by simp
    from Cons.IH [OF this] one None show ?thesis
      by (simp add: block_notification_def)
  next
    case (Some blk)
    let ?s1 = "s\<lparr>published := published s @ [\<lparr>n_games = g, n_prefix = c, n_reqtoken = tok,
                               n_block = blk, n_pindex = b\<rparr>]\<rparr>"
    from Some Cons.prems have one: "SendUpdatesOneBlock ext g c tok b s = (None, ?s1)"
      by (simp add: SendUpdatesOneBlock_def)
    from Cons.prems have "GetGameBlocksNotifier ?s1 = Inr n" by simp
    from Cons.IH [OF this] one Some show ?thesis
      by (simp add: block_notification_def)
  qed
qed

lemma SendUpdatesBlocks_disabled:
  assumes "GetGameBlocksNotifier s = Inl e"
  shows "published (snd (SendUpdatesBlocks ext g c tok bs s)) = published s
         \<and> (fst (SendUpdatesBlocks ext g c tok bs s) = None
              \<longrightarrow> List.map_filter (block_notification ext g c tok) bs = [])"
  using assms
proof (induction bs arbitrary: s)
  case Nil
  show ?case by simp
next
  case (Cons b bs)
  show ?case
  proof (cases "ReadBlockFromDisk ext b")
    case None
    let ?s1 = "s\<lparr>debug_log := debug_log s @ [LogReadFailed (GetHex ext (phashBlock (heap s b)))]\<rparr>"
    from None have one: "SendUpdatesOneBlock ext g c tok b s = (None, ?s1)"
      by (simp add: SendUpdatesOneBlock_def)
    from Cons.prems have "GetGameBlocksNotifier ?s1 = Inl e" by simp
    from Cons.IH [OF this] one None show ?thesis
      by (simp add: block_notification_def)
  next
    case (Some blk)
    with Cons.prems have one: "SendUpdatesOneBlock ext g c tok b s = (Some e, s)"
      by (simp add: SendUpdatesOneBlock_def)
    then show ?thesis by simp
  qed
qed

lemma process_work_shape:
  "sends_only s (snd (process_work ext w s))"
proof -
  let ?d = "SendUpdatesBlocks ext (trackedGames w) PREFIX_DETACH (reqtoken w) (detach w) s"
  obtain r1 s1 where d: "?d = (r1, s1)" by force
  from SendUpdatesBlocks_shape [of s ext "trackedGames w" PREFIX_DETACH "reqtoken w" "detach w"] d
  have s1: "sends_only s s1" by simp
  show ?thesis
  proof (cases r1)
    case (Some e)
    with d s1 show ?thesis by (simp add: process_work_def)
  next
    case None
    let ?a = "SendUpdatesBlocks ext (trackedGames w) PREFIX_ATTACH (reqtoken w) (attach w) s1"
    obtain r2 s2 where a: "?a = (r2, s2)" by force
    from SendUpdatesBlocks_shape [of s1 ext "trackedGames w" PREFIX_ATTACH "reqtoken w" "attach w"] a
    have s2: "sends_only s1 s2" by simp
    have s3: "sends_only s2 (s2\<lparr>debug_log := debug_log s2 @ [LogFinished w]\<rparr>)" by simp
    from d None a sends_only_trans [OF s1 s2] sends_only_trans [OF sends_only_trans [OF s1 s2] s3]
    show ?thesis
      by (cases r2) (simp_all add: process_work_def)
  qed
qed

lemma process_work_ok:
  assumes "GetGameBlocksNotifier s = Inr n"
  shows "fst (process_work ext w s) = None
         \<and> published (snd (process_work ext w s)) = published s @ notifications_of ext w"
proof -
  let ?d = "SendUpdatesBlocks ext (trackedGames w) PREFIX_DETACH (reqtoken w) (detach w) s"
  obtain r1 s1 where d: "?d = (r1, s1)" by force
  from SendUpdatesBlocks_ok [OF assms, of ext "trackedGames w" PREFIX_DETACH "reqtoken w" "detach w"] d
  have r1: "r1 = None" and p1: "published s1 = published s
     @ List.map_filter (block_notification ext (trackedGames w) PREFIX_DETACH (reqtoken w)) (detach w)"
    by simp_all
  from SendUpdatesBlocks_shape [of s ext "trackedGames w" PREFIX_DETACH "reqtoken w" "detach w"] d
  have "sends_only s s1" by simp
  with assms have n1: "GetGameBlocksNotifier s1 = Inr n" by (simp add: sends_only_fields)
  let ?a = "SendUpdatesBlocks ext (trackedGames w) PREFIX_ATTACH (reqtoken w) (attach w) s1"
  obtain r2 s2 where a: "?a = (r2, s2)" by force
  from SendUpdatesBlocks_ok [OF n1, of ext "trackedGames w" PREFIX_ATTACH "reqtoken w" "attach w"] a
  have r2: "r2 = None" and p2: "published s2 = published s1
     @ List.map_filter (block_notification ext (trackedGames w) PREFIX_ATTACH (reqtoken w)) (attach w)"
    by simp_all
  from d a r1 r2 p1 p2 show ?thesis
    by (simp add: process_work_def notifications_of_def)
qed

lemma process_work_disabled:
  assumes "GetGameBlocksNotifier s = Inl e"
  shows "published (snd (process_work ext w s)) = published s
         \<and> (fst (process_work ext w s) = None \<longrightarrow> notifications_of ext w = [])"
proof -
  let ?d = "SendUpdatesBlocks ext (trackedGames w) PREFIX_DETACH (reqtoken w) (detach w) s"
  obtain r1 s1 where d: "?d = (r1, s1)" by force
  from SendUpdatesBlocks_disabled [OF assms, of ext "trackedGames w" PREFIX_DETACH "reqtoken w" "detach w"] d
  have p1: "published s1 = published s" and e1: "r1 = None \<longrightarrow>
     List.map_filter (block_notification ext (trackedGames w) PREFIX_DETACH (reqtoken w)) (detach w) = []"
    by simp_all
  from SendUpdatesBlocks_shape [of s ext "trackedGames w" PREFIX_DETACH "reqtoken w" "detach w"] d
  have "sends_only s s1" by simp
  with assms have n1: "GetGameBlocksNotifier s1 = Inl e" by (simp add: sends_only_fields)
  let ?a = "SendUpdatesBlocks ext (trackedGames w) PREFIX_ATTACH (reqtoken w) (attach w) s1"
  obtain r2 s2 where a: "?a = (r2, s2)" by force
  from SendUpdatesBlocks_disabled [OF n1, of ext "trackedGames w" PREFIX_ATTACH "reqtoken w" "attach w"] a
  have p2: "published s2 = published s1" and e2: "r2 = None \<longrightarrow>
     List.map_filter (block_notification ext (trackedGames w) PREFIX_ATTACH (reqtoken w)) (attach w) = []"
    by simp_all
  from d a p1 p2 e1 e2 show ?thesis
    by (cases r1; cases r2) (simp_all add: process_work_def notifications_of_def)
qed

section \<open>Schedules of the worker\<close>

text \<open>
  The invariants of the worker along a schedule: the notifications sent, followed by those
  of the items the worker still holds, are the notifications of all accepted items; the
  runner leaves its loop only with an empty queue and the interrupted flag set; an
  interrupted worker is never left waiting; and an interrupted worker drains its queue.
\<close>

lemma all_notifications_append [simp]:
  "all_notifications ext (xs @ ys) = all_notifications ext xs @ all_notifications ext ys"
  by (simp add: all_notifications_def)

lemma all_notifications_simps [simp]:
  "all_notifications ext [] = []"
  "all_notifications ext (w # ws) = notifications_of ext w @ all_notifications ext ws"
  by (simp_all add: all_notifications_def)

lemma notify_all_fields [simp]:
  "work (notify_all s) = work s" "interrupted (notify_all s) = interrupted s"
  "published (notify_all s) = published s" "debug_log (notify_all s) = debug_log s"
  "GetGameBlocksNotifier (notify_all s) = GetGameBlocksNotifier s"
  "runner (notify_all s) = (if runner s = CvWait then LoopHead else runner s)"
  by (simp_all add: notify_all_def)

lemma enqueue_fields:
  "work (enqueue w s) = (if interrupted s then work s else work s @ [w])"
  "interrupted (enqueue w s) = interrupted s"
  "published (enqueue w s) = published s"
  "GetGameBlocksNotifier (enqueue w s) = GetGameBlocksNotifier s"
  "runner (enqueue w s)
     = (if interrupted s then runner s else if runner s = CvWait then LoopHead else runner s)"
  by (simp_all add: enqueue_def)

lemma interrupt_fields:
  "work (interrupt s) = work s" "interrupted (interrupt s)"
  "published (interrupt s) = published s"
  "GetGameBlocksNotifier (interrupt s) = GetGameBlocksNotifier s"
  "runner (interrupt s) = (if runner s = CvWait then LoopHead else runner s)"
  by (simp_all add: interrupt_def)

lemma run_step_LoopHead:
  assumes "runner s = LoopHead"
  shows "work s = [] \<Longrightarrow> interrupted s \<Longrightarrow> runner (run_step ext s) = Exited"
    and "work s = [] \<Longrightarrow> \<not> interrupted s \<Longrightarrow> runner (run_step ext s) = CvWait"
    and "work s = w # rest \<Longrightarrow> runner (run_step ext s) = Processing w"
    and "work (run_step ext s) = tl (work s)"
    and "published (run_step ext s) = published s"
    and "interrupted (run_step ext s) = interrupted s"
    and "GetGameBlocksNotifier (run_step ext s) = GetGameBlocksNotifier s"
  using assms by (simp_all add: run_step_def Let_def split: list.splits)

lemma run_step_Processing:
  assumes "runner s = Processing w"
  shows "work (run_step ext s) = work s"
    and "interrupted (run_step ext s) = interrupted s"
    and "GetGameBlocksNotifier (run_step ext s) = GetGameBlocksNotifier s"
    and "published (run_step ext s) = published (snd (process_work ext w s))"
    and "runner (run_step ext s)
           = (case fst (process_work ext w s) of None \<Rightarrow> LoopHead | Some e \<Rightarrow> Threw e)"
proof -
  obtain r s1 where p: "process_work ext w s = (r, s1)" by force
  from process_work_shape [of s ext w] p have f: "sends_only s s1" by simp
  from assms p have rs: "run_step ext s = s1\<lparr>runner := (case r of None \<Rightarrow> LoopHead | Some e \<Rightarrow> Threw e)\<rparr>"
    by (cases r) (simp_all add: run_step_def)
  show "work (run_step ext s) = work s" by (simp add: rs sends_only_fields [OF f])
  show "interrupted (run_step ext s) = interrupted s" by (simp add: rs sends_only_fields [OF f])
  show "GetGameBlocksNotifier (run_step ext s) = GetGameBlocksNotifier s"
    by (simp add: rs sends_only_fields [OF f])
  show "published (run_step ext s) = published (snd (process_work ext w s))" by (simp add: rs p)
  show "runner (run_step ext s)
           = (case fst (process_work ext w s) of None \<Rightarrow> LoopHead | Some e \<Rightarrow> Threw e)"
    by (simp add: rs p)
qed

lemma run_step_idle:
  assumes "runner s = CvWait \<or> runner s = Exited \<or> runner s = Threw e"
  shows "run_step ext s = s"
  using assms by (auto simp: run_step_def)

lemma step_notifier [simp]: "GetGameBlocksNotifier (step ext ev s) = GetGameBlocksNotifier s"
proof (cases ev)
  case EvRunner
  show ?thesis
  proof (cases "runner s")
    case LoopHead
    with EvRunner show ?thesis by (simp add: run_step_LoopHead)
  next
    case (Processing w)
    with EvRunner show ?thesis by (simp add: run_step_Processing)
  qed (simp_all add: EvRunner run_step_idle)
qed (simp_all add: enqueue_fields interrupt_fields)

lemma step_interrupted: "interrupted (step ext ev s) \<longleftrightarrow> interrupted s \<or> ev = EvInterrupt"
proof (cases ev)
  case EvRunner
  show ?thesis
  proof (cases "runner s")
    case LoopHead
    with EvRunner show ?thesis by (simp add: run_step_LoopHead)
  next
    case (Processing w)
    with EvRunner show ?thesis by (simp add: run_step_Processing)
  qed (simp_all add: EvRunner run_step_idle)
qed (simp_all add: enqueue_fields interrupt_fields)

lemma step_Threw:
  assumes "runner s = Threw e"
  shows "runner (step ext ev s) = Threw e" "published (step ext ev s) = published s"
  using assms by (cases ev; simp add: enqueue_fields interrupt_fields run_step_idle)+

lemma exec_Threw:
  "runner s = Threw e \<Longrightarrow> runner (exec ext evs s) = Threw e \<and> published (exec ext evs s) = published s"
  by (induction evs arbitrary: s) (simp_all add: step_Threw)

lemma exec_append: "exec ext (xs @ ys) s = exec ext ys (exec ext xs s)"
  by (induction xs arbitrary: s) simp_all

lemma exec_notifier [simp]: "GetGameBlocksNotifier (exec ext evs s) = GetGameBlocksNotifier s"
  by (induction evs arbitrary: s) simp_all

lemma accepted_Cons:
  "accepted (ev # evs)
     = (case ev of EvInterrupt \<Rightarrow> [] | EvEnqueue w \<Rightarrow> w # accepted evs | _ \<Rightarrow> accepted evs)"
  by (cases ev) (simp_all add: accepted_def)

lemma step_published:
  assumes "\<forall>e. runner s \<noteq> Threw e"
  shows "(\<forall>e. runner (step ext ev s) \<noteq> Threw e) \<longrightarrow>
           published (step ext ev s) @ all_notifications ext (pending (step ext ev s))
           = published s @ all_notifications ext (pending s)
             @ all_notifications ext
                 (case ev of EvEnqueue w \<Rightarrow> if interrupted s then [] else [w] | _ \<Rightarrow> [])"
    and "(\<exists>e. runner (step ext ev s) = Threw e) \<longrightarrow> published (step ext ev s) = published s"
proof -
  have "((\<forall>e. runner (step ext ev s) \<noteq> Threw e) \<longrightarrow>
           published (step ext ev s) @ all_notifications ext (pending (step ext ev s))
           = published s @ all_notifications ext (pending s)
             @ all_notifications ext
                 (case ev of EvEnqueue w \<Rightarrow> if interrupted s then [] else [w] | _ \<Rightarrow> []))
     \<and> ((\<exists>e. runner (step ext ev s) = Threw e) \<longrightarrow> published (step ext ev s) = published s)"
  proof (cases ev)
    case (EvEnqueue w)
    with assms show ?thesis
      by (cases "runner s") (auto simp: enqueue_fields pending_def)
  next
    case EvInterrupt
    with assms show ?thesis
      by (cases "runner s") (auto simp: interrupt_fields pending_def)
  next
    case EvSpuriousWakeup
    with assms show ?thesis
      by (cases "runner s") (auto simp: pending_def)
  next
    case EvRunner
    show ?thesis
    proof (cases "runner s")
      case LoopHead
      show ?thesis
      proof (cases "work s")
        case Nil
        with LoopHead EvRunner show ?thesis
          by (cases "interrupted s") (simp_all add: run_step_LoopHead pending_def)
      next
        case (Cons w rest)
        with LoopHead EvRunner show ?thesis
          by (simp add: run_step_LoopHead pending_def)
      qed
    next
      case (Processing w)
      show ?thesis
      proof (cases "GetGameBlocksNotifier s")
        case (Inr n)
        from process_work_ok [OF Inr, of ext w] Processing EvRunner show ?thesis
          by (simp add: run_step_Processing pending_def)
      next
        case (Inl e)
        from process_work_disabled [OF Inl, of ext w] Processing EvRunner show ?thesis
          by (cases "fst (process_work ext w s)") (simp_all add: run_step_Processing pending_def)
      qed
    next
      case CvWait
      with EvRunner show ?thesis by (simp add: run_step_idle)
    next
      case Exited
      with EvRunner show ?thesis by (simp add: run_step_idle)
    next
      case (Threw e)
      with assms show ?thesis by simp
    qed
  qed
  then show "(\<forall>e. runner (step ext ev s) \<noteq> Threw e) \<longrightarrow>
           published (step ext ev s) @ all_notifications ext (pending (step ext ev s))
           = published s @ all_notifications ext (pending s)
             @ all_notifications ext
                 (case ev of EvEnqueue w \<Rightarrow> if interrupted s then [] else [w] | _ \<Rightarrow> [])"
    and "(\<exists>e. runner (step ext ev s) = Threw e) \<longrightarrow> published (step ext ev s) = published s"
    by blast+
qed

lemma accepted_step:
  "(case ev of EvEnqueue w \<Rightarrow> if interrupted s then [] else [w] | _ \<Rightarrow> [])
     @ (if interrupted (step ext ev s) then [] else accepted evs)
   = (if interrupted s then [] else accepted (ev # evs))"
  by (cases ev) (simp_all add: accepted_Cons step_interrupted enqueue_fields del: step.simps)

lemma exec_published:
  "\<forall>e. runner (exec ext evs s) \<noteq> Threw e \<Longrightarrow>
     published (exec ext evs s) @ all_notifications ext (pending (exec ext evs s))
     = published s @ all_notifications ext (pending s)
       @ all_notifications ext (if interrupted s then [] else accepted evs)"
proof (induction evs arbitrary: s)
  case Nil
  show ?case by (simp add: accepted_def)
next
  case (Cons ev evs)
  let ?s1 = "step ext ev s"
  from Cons.prems have fin: "\<forall>e. runner (exec ext evs ?s1) \<noteq> Threw e" by simp
  have n1: "\<forall>e. runner ?s1 \<noteq> Threw e"
  proof (intro allI notI)
    fix e assume "runner ?s1 = Threw e"
    from exec_Threw [OF this, of ext evs] fin show False by simp
  qed
  have n0: "\<forall>e. runner s \<noteq> Threw e"
  proof (intro allI notI)
    fix e assume "runner s = Threw e"
    from step_Threw(1) [OF this, of ext ev] n1 show False by simp
  qed
  from step_published(1) [OF n0, of ext ev] n1
  have st: "published ?s1 @ all_notifications ext (pending ?s1)
           = published s @ all_notifications ext (pending s)
             @ all_notifications ext
                 (case ev of EvEnqueue w \<Rightarrow> if interrupted s then [] else [w] | _ \<Rightarrow> [])"
    by blast
  have "published (exec ext (ev # evs) s) @ all_notifications ext (pending (exec ext (ev # evs) s))
        = (published ?s1 @ all_notifications ext (pending ?s1))
          @ all_notifications ext (if interrupted ?s1 then [] else accepted evs)"
    using Cons.IH [OF fin] by simp
  also have "\<dots> = published s @ all_notifications ext (pending s)
             @ all_notifications ext
                 ((case ev of EvEnqueue w \<Rightarrow> if interrupted s then [] else [w] | _ \<Rightarrow> [])
                   @ (if interrupted ?s1 then [] else accepted evs))"
    by (simp only: st all_notifications_append append_assoc)
  finally show ?case by (simp only: accepted_step)
qed


lemma step_exited_inv:
  assumes "runner s = Exited \<longrightarrow> work s = [] \<and> interrupted s"
  shows "runner (step ext ev s) = Exited \<longrightarrow> work (step ext ev s) = [] \<and> interrupted (step ext ev s)"
proof (cases ev)
  case EvRunner
  show ?thesis
  proof (cases "runner s")
    case LoopHead
    with EvRunner show ?thesis
      by (cases "work s"; cases "interrupted s") (simp_all add: run_step_LoopHead)
  next
    case (Processing w)
    with EvRunner show ?thesis
      by (cases "fst (process_work ext w s)") (simp_all add: run_step_Processing)
  qed (use assms EvRunner in \<open>simp_all add: run_step_idle\<close>)
qed (use assms in \<open>auto simp: enqueue_fields interrupt_fields split: if_splits\<close>)

lemma exec_exited_inv:
  "runner s = Exited \<longrightarrow> work s = [] \<and> interrupted s \<Longrightarrow>
   runner (exec ext evs s) = Exited \<longrightarrow> work (exec ext evs s) = [] \<and> interrupted (exec ext evs s)"
proof (induction evs arbitrary: s)
  case Nil
  then show ?case by simp
next
  case (Cons ev evs)
  from Cons.IH [OF step_exited_inv [OF Cons.prems, of ext ev]] show ?case by simp
qed

lemma step_awake_inv:
  assumes "interrupted s \<longrightarrow> runner s \<noteq> CvWait"
  shows "interrupted (step ext ev s) \<longrightarrow> runner (step ext ev s) \<noteq> CvWait"
proof (cases ev)
  case EvRunner
  show ?thesis
  proof (cases "runner s")
    case LoopHead
    with EvRunner show ?thesis
      by (cases "work s"; cases "interrupted s") (simp_all add: run_step_LoopHead)
  next
    case (Processing w)
    with EvRunner show ?thesis
      by (cases "fst (process_work ext w s)") (simp_all add: run_step_Processing)
  qed (use assms EvRunner in \<open>simp_all add: run_step_idle\<close>)
qed (use assms in \<open>auto simp: enqueue_fields interrupt_fields split: if_splits\<close>)

lemma exec_awake_inv:
  "interrupted s \<longrightarrow> runner s \<noteq> CvWait \<Longrightarrow>
   interrupted (exec ext evs s) \<longrightarrow> runner (exec ext evs s) \<noteq> CvWait"
proof (induction evs arbitrary: s)
  case Nil
  then show ?case by simp
next
  case (Cons ev evs)
  from Cons.IH [OF step_awake_inv [OF Cons.prems, of ext ev]] show ?case by simp
qed

lemma step_no_throw:
  assumes "GetGameBlocksNotifier s = Inr n" "\<forall>e. runner s \<noteq> Threw e"
  shows "\<forall>e. runner (step ext ev s) \<noteq> Threw e"
proof (cases ev)
  case EvRunner
  show ?thesis
  proof (cases "runner s")
    case LoopHead
    with EvRunner show ?thesis
      by (cases "work s"; cases "interrupted s") (simp_all add: run_step_LoopHead)
  next
    case (Processing w)
    with EvRunner process_work_ok [OF assms(1), of ext w] show ?thesis
      by (simp add: run_step_Processing)
  qed (use assms EvRunner in \<open>simp_all add: run_step_idle\<close>)
qed (use assms in \<open>auto simp: enqueue_fields interrupt_fields split: if_splits\<close>)

lemma exec_no_throw:
  "GetGameBlocksNotifier s = Inr n \<Longrightarrow> \<forall>e. runner s \<noteq> Threw e
   \<Longrightarrow> \<forall>e. runner (exec ext evs s) \<noteq> Threw e"
proof (induction evs arbitrary: s)
  case Nil
  then show ?case by simp
next
  case (Cons ev evs)
  from Cons.prems(1) have "GetGameBlocksNotifier (step ext ev s) = Inr n" by simp
  from Cons.IH [OF this step_no_throw [OF Cons.prems, of ext ev]] show ?case by simp
qed

lemma drain_steps:
  assumes "GetGameBlocksNotifier s = Inr n" "interrupted s"
    and "(case runner s of LoopHead \<Rightarrow> 2 * length (work s) + 1
          | Processing w \<Rightarrow> 2 * length (work s) + 2
          | Exited \<Rightarrow> 0 | _ \<Rightarrow> k + 1) \<le> k"
  shows "runner (exec ext (replicate k EvRunner) s) = Exited"
  using assms
proof (induction k arbitrary: s)
  case 0
  then show ?case by (cases "runner s") simp_all
next
  case (Suc k)
  let ?s1 = "run_step ext s"
  have n1: "GetGameBlocksNotifier ?s1 = Inr n"
    using Suc.prems(1) step_notifier [of ext EvRunner s] by simp
  have i1: "interrupted ?s1"
    using Suc.prems(2) step_interrupted [of ext EvRunner s] by simp
  have m1: "(case runner ?s1 of LoopHead \<Rightarrow> 2 * length (work ?s1) + 1
          | Processing w \<Rightarrow> 2 * length (work ?s1) + 2
          | Exited \<Rightarrow> 0 | _ \<Rightarrow> k + 1) \<le> k"
  proof (cases "runner s")
    case LoopHead
    show ?thesis
    proof (cases "work s")
      case Nil
      with LoopHead Suc.prems(2) show ?thesis by (simp add: run_step_LoopHead)
    next
      case (Cons w rest)
      with LoopHead Suc.prems(3) show ?thesis by (simp add: run_step_LoopHead)
    qed
  next
    case (Processing w)
    with Suc.prems(3) process_work_ok [OF Suc.prems(1), of ext w] show ?thesis
      by (simp add: run_step_Processing)
  next
    case Exited
    then show ?thesis by (simp add: run_step_idle)
  next
    case CvWait
    with Suc.prems(3) show ?thesis by simp
  next
    case (Threw e)
    with Suc.prems(3) show ?thesis by simp
  qed
  from Suc.IH [OF n1 i1 m1] show ?case by simp
qed

section \<open>The request handler\<close>

lemma game_sendupdates_resolved:
  assumes "parse_params ext request s = Inr (gameid, fromBlock, toBlock)"
    and "mapBlockIndex s fromBlock = Some f" and "mapBlockIndex s toBlock = Some t"
  shows "game_sendupdates ext tok request s =
     (if \<not> has_data (BLOCK_HAVE_DATA ext) (heap s f)
      then Some (Inl (JSONRPCError RPC_DATABASE_ERROR ''fromblock has no data''), s)
      else if \<not> has_data (BLOCK_HAVE_DATA ext) (heap s t)
      then Some (Inl (JSONRPCError RPC_DATABASE_ERROR ''toblock has no data''), s)
      else case sendupdates_sequences ext (heap s) f t of
        None \<Rightarrow> None
      | Some (Inl e) \<Rightarrow> Some (Inl e, s)
      | Some (Inr (a, det, att)) \<Rightarrow>
          (case GetGameBlocksNotifier s of
             Inl e \<Rightarrow> Some (Inl e, s)
           | Inr notifier \<Rightarrow>
               if \<not> worker_exists s
               then Some (Inl (AssertionFailed ''g_send_updates_worker != nullptr''), s)
               else Some (Inr (sendupdates_result ext toBlock (phashBlock (heap s a)) tok
                                 (length det) (length att)),
                          enqueue \<lparr>reqtoken = tok, detach = det, attach = att,
                                   trackedGames = {gameid}\<rparr> s)))"
  by (simp add: game_sendupdates_def assms Let_def split: option.splits sum.splits prod.splits)

lemma game_sendupdates_Inr:
  assumes "game_sendupdates ext tok request s = Some (Inr res, s')"
  obtains gameid fromBlock toBlock f t a det att n where
    "parse_params ext request s = Inr (gameid, fromBlock, toBlock)"
    "mapBlockIndex s fromBlock = Some f" "mapBlockIndex s toBlock = Some t"
    "has_data (BLOCK_HAVE_DATA ext) (heap s f)" "has_data (BLOCK_HAVE_DATA ext) (heap s t)"
    "sendupdates_sequences ext (heap s) f t = Some (Inr (a, det, att))"
    "GetGameBlocksNotifier s = Inr n" "worker_exists s"
    "res = sendupdates_result ext toBlock (phashBlock (heap s a)) tok (length det) (length att)"
    "s' = enqueue \<lparr>reqtoken = tok, detach = det, attach = att, trackedGames = {gameid}\<rparr> s"
proof -
  from assms obtain gameid fromBlock toBlock where
    p: "parse_params ext request s = Inr (gameid, fromBlock, toBlock)"
    by (cases "parse_params ext request s") (auto simp: game_sendupdates_def)
  from assms p obtain f where f: "mapBlockIndex s fromBlock = Some f"
    by (cases "mapBlockIndex s fromBlock") (auto simp: game_sendupdates_def)
  from assms p f obtain t where t: "mapBlockIndex s toBlock = Some t"
    by (cases "mapBlockIndex s toBlock") (auto simp: game_sendupdates_def)
  note r = game_sendupdates_resolved [OF p f t, of tok]
  from assms r have df: "has_data (BLOCK_HAVE_DATA ext) (heap s f)"
    and dt: "has_data (BLOCK_HAVE_DATA ext) (heap s t)"
    by (auto split: if_splits)
  from assms r df dt obtain a det att where
    q: "sendupdates_sequences ext (heap s) f t = Some (Inr (a, det, att))"
    by (auto split: option.splits sum.splits)
  from assms r df dt q obtain n where n: "GetGameBlocksNotifier s = Inr n"
    by (auto split: sum.splits)
  from assms r df dt q n have w: "worker_exists s" and
    res: "res = sendupdates_result ext toBlock (phashBlock (heap s a)) tok (length det) (length att)"
    and s': "s' = enqueue \<lparr>reqtoken = tok, detach = det, attach = att, trackedGames = {gameid}\<rparr> s"
    by (auto split: if_splits)
  from p f t df dt q n w res s' that show thesis by blast
qed

lemma parse_params_gameid:
  assumes "parse_params ext request s = Inr (gameid, fromBlock, toBlock)"
  shows "get_str (params request ! 0) = Inr gameid"
  using assms unfolding parse_params_def
  by (auto split: if_splits option.splits sum.splits)

lemma trackedgames_work: "work (snd (trackedgames ext req s)) = work s"
  by (simp add: trackedgames_def split: option.splits sum.splits)

lemma LastCommonAncestor_spec_same: "LastCommonAncestor_spec h x x = Some x"
  by (simp add: LastCommonAncestor_spec_def)

lemma sendupdates_sequences_same:
  assumes "LastCommonAncestor ext h x x = Some x"
  shows "sendupdates_sequences ext h x x = Some (Inr (x, [], []))"
  using sendupdates_sequences_walk [OF assms walk_done walk_done] by simp

lemma SendUpdatesBlocks_append:
  "SendUpdatesBlocks ext g c tok (xs @ ys) s =
     (case SendUpdatesBlocks ext g c tok xs s of
        (Some e, s1) \<Rightarrow> (Some e, s1)
      | (None, s1) \<Rightarrow> SendUpdatesBlocks ext g c tok ys s1)"
  by (induction xs arbitrary: s) (auto split: prod.splits option.splits)




lemma accepted_append_runner: "accepted (evs @ replicate k EvRunner) = accepted evs"
proof (induction evs)
  case Nil
  show ?case by (induction k) (simp_all add: accepted_def)
next
  case (Cons ev evs)
  then show ?case by (cases ev) (simp_all add: accepted_Cons)
qed

section \<open>The example, evaluated\<close>

lemma ex_blocks [simp]:
  "pprev (example_heap 5) = Some 4" "pprev (example_heap 4) = Some 2"
  "pprev (example_heap 3) = Some 2" "pprev (example_heap 2) = Some 1"
  "pprev (example_heap 1) = Some 0" "pprev (example_heap 0) = None"
  "has_data 8 (example_heap p)"
  "pprev (example_heap_pruned p) = pprev (example_heap p)"
  "has_data 8 (example_heap_pruned p) \<longleftrightarrow> p \<noteq> 4"
  by (simp_all add: example_heap_def example_heap_pruned_def has_data_def)

lemma ex_walks:
  "walk example_heap (Some 3) (Some 2) [3]"
  "walk example_heap (Some 5) (Some 2) [5, 4]"
  "walk example_heap_pruned (Some 3) (Some 2) [3]"
  "walk example_heap_pruned (Some 5) (Some 2) [5, 4]"
  "walk example_heap_pruned (Some 4) (Some 2) [4]"
  by (rule walk.intros | simp)+

lemma ex_lca: "LastCommonAncestor_spec example_heap 3 5 = Some 2"
  "LastCommonAncestor_spec example_heap_pruned 3 5 = Some 2"
  by (simp_all add: LastCommonAncestor_spec_def example_heap_def example_heap_pruned_def eval_nat_numeral)

lemma ex_gds: "GetDetachSequence 8 example_heap_pruned (Some 4) (Some 2)
   = Some (Inl (JSONRPCError RPC_DATABASE_ERROR ''detached block has no data''))"
  by (simp add: GetDetachSequence_def GetDetachSequence_loop.simps)

lemma ex_parse: "parse_params example_ext example_request example_node = Inr (''huc'', 103, 105)"
  by (simp add: parse_params_def example_ext_def example_request_def example_node_def example_hashes_def)

lemma ex_lookup: "mapBlockIndex example_node 103 = Some 3" "mapBlockIndex example_node 105 = Some 5"
  by (simp_all add: example_node_def)

lemma ex_ext [simp]:
  "BLOCK_HAVE_DATA example_ext = 8" "LastCommonAncestor example_ext = LastCommonAncestor_spec"
  by (simp_all add: example_ext_def)

lemma example_schedule_run:
  "runner (exec example_ext example_schedule example_node) = Exited"
  "interrupted (exec example_ext [EvEnqueue example_work, EvInterrupt] example_node)"
  by (simp_all add: example_schedule_def example_node_def example_work_def example_ext_def
        enqueue_def interrupt_def notify_all_def run_step_def process_work_def
        SendUpdatesOneBlock_def GetGameBlocksNotifier_def)

lemma example_request_run:
  "game_sendupdates example_ext ''token'' example_request example_node
     = Some (Inr (UniObj [(''toblock'', UniStr ''hashE''), (''ancestor'', UniStr ''hashB''),
                          (''reqtoken'', UniStr ''token''),
                          (''steps'', UniObj [(''detach'', UniNum 1), (''attach'', UniNum 2)])]),
             enqueue example_work example_node)"
proof -
  have q: "sendupdates_sequences example_ext (heap example_node) 3 5 = Some (Inr (2, [3], [4, 5]))"
    using sendupdates_sequences_walk [of example_ext example_heap 3 5 2 "[3]" "[5, 4]"]
      ex_walks ex_lca by (simp add: example_node_def)
  have d: "has_data 8 (heap example_node 3)" "has_data 8 (heap example_node 5)"
    by (simp_all add: example_node_def)
  have n: "GetGameBlocksNotifier example_node = Inr {''a'', ''b''}"
    by (simp add: GetGameBlocksNotifier_def example_node_def)
  have w: "worker_exists example_node" by (simp add: example_node_def)
  have r: "sendupdates_result example_ext 105 (phashBlock (heap example_node 2)) ''token''
             (Suc 0) (Suc (Suc 0))
           = UniObj [(''toblock'', UniStr ''hashE''), (''ancestor'', UniStr ''hashB''),
                          (''reqtoken'', UniStr ''token''),
                          (''steps'', UniObj [(''detach'', UniNum 1), (''attach'', UniNum 2)])]"
    by (simp add: sendupdates_result_def example_ext_def example_heap_def example_hashes_def
          example_node_def)
  show ?thesis
    by (simp add: game_sendupdates_resolved [OF ex_parse ex_lookup] q d n w r example_work_def)
qed

section \<open>The claims\<close>

text \<open>
  Claim C1 as stated fails where a visited block has no data.  In the example chain with
  \<open>D\<close> pruned, \<open>B\<close> is reached from \<open>D\<close> by one parent link and the walk visits exactly
  \<open>D\<close>, but \<open>GetDetachSequence (D, B)\<close> throws the database error and returns no list.
\<close>

theorem GetDetachSequence_pruned_block_throws:
  "walk example_heap_pruned (Some 4) (Some 2) [4]
   \<and> GetDetachSequence 8 example_heap_pruned (Some 4) (Some 2)
       = Some (Inl (JSONRPCError RPC_DATABASE_ERROR ''detached block has no data''))"
  using ex_walks(5) ex_gds by simp

text \<open>
  Claim C1, amended.  For every pair of block references \<open>(start, anc)\<close> such that \<open>anc\<close>
  is reached from \<open>start\<close> by parent links and every block visited on the way has its
  data, \<open>GetDetachSequence (start, anc)\<close> returns exactly the blocks visited by starting
  at \<open>start\<close> and moving to the parent until \<open>anc\<close> is reached, \<open>anc\<close> excluded, in visit
  order.  Under the same condition on the walks from \<open>fromIndex\<close> and from \<open>toIndex\<close> to
  their common ancestor, the attach list that \<open>game_sendupdates\<close> builds is the reverse
  of the walk from \<open>toIndex\<close>, and the detach list is the walk from \<open>fromIndex\<close>.
\<close>

theorem GetDetachSequence_returns_walk:
  "(walk h start anc bs \<and> (\<forall>b\<in>set bs. has_data hv (h b))
      \<longrightarrow> GetDetachSequence hv h start anc = Some (Inr bs))
   \<and> (LastCommonAncestor ext h f t = Some a
        \<and> walk h (Some f) (Some a) xs \<and> walk h (Some t) (Some a) ys
        \<and> (\<forall>b\<in>set (xs @ ys). has_data (BLOCK_HAVE_DATA ext) (h b))
      \<longrightarrow> GetDetachSequence (BLOCK_HAVE_DATA ext) h (Some t) (Some a) = Some (Inr ys)
          \<and> sendupdates_sequences ext h f t = Some (Inr (a, xs, rev ys)))"
proof (intro conjI impI)
  assume "walk h start anc bs \<and> (\<forall>b\<in>set bs. has_data hv (h b))"
  then show "GetDetachSequence hv h start anc = Some (Inr bs)"
    by (simp add: GetDetachSequence_walk)
next
  assume a: "LastCommonAncestor ext h f t = Some a
        \<and> walk h (Some f) (Some a) xs \<and> walk h (Some t) (Some a) ys
        \<and> (\<forall>b\<in>set (xs @ ys). has_data (BLOCK_HAVE_DATA ext) (h b))"
  then show "GetDetachSequence (BLOCK_HAVE_DATA ext) h (Some t) (Some a) = Some (Inr ys)"
    by (simp add: GetDetachSequence_walk)
  from a show "sendupdates_sequences ext h f t = Some (Inr (a, xs, rev ys))"
    by (simp add: sendupdates_sequences_walk)
qed

text \<open>
  The amended Claim C1 on the example: the walk from \<open>E\<close> to \<open>B\<close> is \<open>[E, D]\<close>, and the
  lists from \<open>C\<close> to \<open>E\<close> are \<open>[C]\<close> and \<open>[D, E]\<close>.
\<close>

theorem GetDetachSequence_returns_walk_witness:
  "GetDetachSequence 8 example_heap (Some 5) (Some 2) = Some (Inr [5, 4])
   \<and> sendupdates_sequences example_ext example_heap 3 5 = Some (Inr (2, [3], [4, 5]))"
  using GetDetachSequence_returns_walk
          [of example_heap "Some 5" "Some 2" "[5, 4]" 8 example_ext 3 5 2 "[3]" "[5, 4]"]
        ex_walks ex_lca
  by simp

text \<open>
  Claim C10.  For every pair \<open>(f, anc)\<close> with \<open>anc\<close> a proper ancestor of \<open>f\<close> (reached from
  \<open>f\<close> by parent links, and different from \<open>f\<close>): every sequence that
  \<open>GetDetachSequence (f, anc)\<close> returns is non-empty, its first element is \<open>f\<close>, each
  further element is the parent of the one before, and the parent of the last element is
  \<open>anc\<close>.  A sequence is returned whenever the blocks on the way have their data.
\<close>

theorem GetDetachSequence_chain_segment:
  assumes "walk h (Some f) anc bs" and "Some f \<noteq> anc"
  shows "((\<forall>b\<in>set bs. has_data hv (h b))
            \<longrightarrow> GetDetachSequence hv h (Some f) anc = Some (Inr bs))
         \<and> (\<forall>r. GetDetachSequence hv h (Some f) anc = Some (Inr r)
                \<longrightarrow> r \<noteq> [] \<and> hd r = f \<and> child_before_parent h r
                    \<and> pprev (h (last r)) = anc)"
proof (intro conjI allI impI)
  assume "\<forall>b\<in>set bs. has_data hv (h b)"
  with assms(1) show "GetDetachSequence hv h (Some f) anc = Some (Inr bs)"
    by (rule GetDetachSequence_walk)
next
  fix r assume "GetDetachSequence hv h (Some f) anc = Some (Inr r)"
  from GetDetachSequence_Inr [OF this] have w: "walk h (Some f) anc r" by simp
  from walk_links [OF w assms(2)]
  show "r \<noteq> []" "hd r = f" "child_before_parent h r" "pprev (h (last r)) = anc" .
qed

text \<open>Claim C10 on the example: the sequence from \<open>E\<close> to its proper ancestor \<open>B\<close>.\<close>

theorem GetDetachSequence_chain_segment_witness:
  "GetDetachSequence 8 example_heap (Some 5) (Some 2) = Some (Inr [5, 4])
   \<and> hd [5, 4] = (5::nat) \<and> child_before_parent example_heap [5, 4]
   \<and> pprev (example_heap (last [5, 4])) = Some 2"
proof -
  have ne: "Some (5::nat) \<noteq> Some 2" by simp
  note c = GetDetachSequence_chain_segment [OF ex_walks(2) ne, of 8]
  from c have g: "GetDetachSequence 8 example_heap (Some 5) (Some 2) = Some (Inr [5, 4])"
    by simp
  with c show ?thesis by blast
qed

text \<open>
  Claim C6 as stated fails: the lists hold the tips.  In the example, with old tip \<open>C\<close>, new
  tip \<open>E\<close> and common ancestor \<open>B\<close>, the detach list is \<open>[C]\<close> and the attach list is
  \<open>[D, E]\<close>; no block lies strictly between \<open>C\<close> and \<open>B\<close>, and only \<open>D\<close> lies strictly
  between \<open>B\<close> and \<open>E\<close>.
\<close>

theorem detach_includes_old_tip:
  "sendupdates_sequences example_ext example_heap 3 5 = Some (Inr (2, [3], [4, 5]))
   \<and> \<not> strictly_between example_heap 3 (Some 2) [3]
   \<and> \<not> strictly_between example_heap 5 (Some 2) (rev [4, 5])"
proof -
  have "walk example_heap (Some 2) (Some 2) []" by (rule walk_done)
  then have a: "\<not> walk example_heap (Some 2) (Some 2) [3]"
    using walk_unique by blast
  have "walk example_heap (Some 4) (Some 2) [4]" by (rule walk.intros | simp)+
  then have b: "\<not> walk example_heap (Some 4) (Some 2) [5, 4]"
    using walk_unique by blast
  from a b sendupdates_sequences_walk [of example_ext example_heap 3 5 2 "[3]" "[5, 4]"]
    ex_walks ex_lca
  show ?thesis by (simp add: strictly_between_def)
qed

text \<open>
  Claim C6, amended.  For every reorg computation of \<open>game_sendupdates\<close> that gives its two
  lists: neither list holds the common ancestor; the detach list is exactly the walk from
  the old tip, the old tip included, down to the ancestor, the ancestor excluded, child
  before parent; the attach list is the reverse of the walk from the new tip, the new tip
  included, so it runs from the child of the ancestor up to the new tip, parent before
  child.
\<close>

theorem sequences_between_tip_and_ancestor:
  assumes "sendupdates_sequences ext h f t = Some (Inr (a, det, att))"
  shows "LastCommonAncestor ext h f t = Some a
         \<and> a \<notin> set det \<and> a \<notin> set att
         \<and> walk h (Some f) (Some a) det \<and> walk h (Some t) (Some a) (rev att)
         \<and> child_before_parent h det \<and> parent_before_child h att
         \<and> (f \<noteq> a \<longrightarrow> det \<noteq> [] \<and> hd det = f \<and> pprev (h (last det)) = Some a)
         \<and> (t \<noteq> a \<longrightarrow> att \<noteq> [] \<and> last att = t \<and> pprev (h (hd att)) = Some a)"
proof -
  note s = sendupdates_sequences_Inr [OF assms]
  from GetDetachSequence_Inr [OF s(2)] have wd: "walk h (Some f) (Some a) det" by simp
  from GetDetachSequence_Inr [OF s(3)] have wa: "walk h (Some t) (Some a) (rev att)" by simp
  from walk_not_ancestor [OF wd] have nd: "a \<notin> set det" by auto
  from walk_not_ancestor [OF wa] have na: "a \<notin> set att" by auto
  note cd = walk_child_before_parent [OF wd]
  from parent_before_child_rev [OF walk_child_before_parent [OF wa]]
  have pa: "parent_before_child h att" by simp
  have ld: "f \<noteq> a \<longrightarrow> det \<noteq> [] \<and> hd det = f \<and> pprev (h (last det)) = Some a"
  proof
    assume "f \<noteq> a"
    then have "Some f \<noteq> Some a" by simp
    from walk_links [OF wd this] show "det \<noteq> [] \<and> hd det = f \<and> pprev (h (last det)) = Some a"
      by simp
  qed
  have la: "t \<noteq> a \<longrightarrow> att \<noteq> [] \<and> last att = t \<and> pprev (h (hd att)) = Some a"
  proof
    assume "t \<noteq> a"
    then have "Some t \<noteq> Some a" by simp
    from walk_links [OF wa this] have "rev att \<noteq> []" "hd (rev att) = t"
      "pprev (h (last (rev att))) = Some a" by simp_all
    then show "att \<noteq> [] \<and> last att = t \<and> pprev (h (hd att)) = Some a"
      by (simp add: hd_rev last_rev)
  qed
  from s(1) nd na wd wa cd pa ld la show ?thesis by blast
qed

text \<open>The amended Claim C6 on the example reorganisation from \<open>C\<close> to \<open>E\<close>.\<close>

theorem sequences_between_tip_and_ancestor_witness:
  "sendupdates_sequences example_ext example_heap 3 5 = Some (Inr (2, [3], [4, 5]))
   \<and> 2 \<notin> set [3::nat] \<and> 2 \<notin> set [4, 5::nat]
   \<and> child_before_parent example_heap [3] \<and> parent_before_child example_heap [4, 5]
   \<and> hd [3] = (3::nat) \<and> last [4, 5] = (5::nat)"
proof -
  have s: "sendupdates_sequences example_ext example_heap 3 5 = Some (Inr (2, [3], [4, 5]))"
    using sendupdates_sequences_walk [of example_ext example_heap 3 5 2 "[3]" "[5, 4]"]
      ex_walks ex_lca by simp
  from sequences_between_tip_and_ancestor [OF s] s show ?thesis by simp
qed

text \<open>
  Claim C4.  For every request of \<open>game_sendupdates\<close> whose two blocks are found and where
  some block visited on the detach walk or on the attach walk lacks \<open>BLOCK_HAVE_DATA\<close>:
  the call throws a \<open>JSONRPCError\<close> with the code \<open>RPC_DATABASE_ERROR\<close>, no list is
  returned, and the state of the node after the call is the state before it, so no work
  item has been enqueued and the queue has the length it had.
\<close>

theorem data_unavailable_rejects_request:
  assumes "parse_params ext request s = Inr (gameid, fromBlock, toBlock)"
    and "mapBlockIndex s fromBlock = Some f" and "mapBlockIndex s toBlock = Some t"
    and "LastCommonAncestor ext (heap s) f t = Some a"
    and "walk (heap s) (Some f) (Some a) xs" and "walk (heap s) (Some t) (Some a) ys"
    and "\<exists>b\<in>set (xs @ ys). \<not> has_data (BLOCK_HAVE_DATA ext) (heap s b)"
  shows "\<exists>msg s'. game_sendupdates ext tok request s
                    = Some (Inl (JSONRPCError RPC_DATABASE_ERROR msg), s')
                 \<and> msg \<in> {''fromblock has no data'', ''toblock has no data'',
                            ''detached block has no data''}
                 \<and> s' = s \<and> length (work s') = length (work s)"
  using sendupdates_sequences_nodata [OF assms(4-7)]
  by (simp add: game_sendupdates_resolved [OF assms(1-3)])

text \<open>
  Claim C4 on the example with \<open>D\<close> pruned: the request from \<open>C\<close> to \<open>E\<close> is rejected and
  the node is unchanged.
\<close>

theorem data_unavailable_rejects_request_witness:
  "\<not> has_data 8 (example_heap_pruned 4)
   \<and> (\<exists>msg s'. game_sendupdates example_ext ''token'' example_request
                   (example_node\<lparr>heap := example_heap_pruned\<rparr>)
                 = Some (Inl (JSONRPCError RPC_DATABASE_ERROR msg), s')
               \<and> msg \<in> {''fromblock has no data'', ''toblock has no data'',
                          ''detached block has no data''}
               \<and> s' = example_node\<lparr>heap := example_heap_pruned\<rparr>
               \<and> length (work s') = length (work (example_node\<lparr>heap := example_heap_pruned\<rparr>)))"
proof -
  let ?s = "example_node\<lparr>heap := example_heap_pruned\<rparr>"
  have p: "parse_params example_ext example_request ?s = Inr (''huc'', 103, 105)"
    by (simp add: parse_params_def example_ext_def example_request_def example_node_def
          example_hashes_def)
  have f: "mapBlockIndex ?s 103 = Some 3" and t: "mapBlockIndex ?s 105 = Some 5"
    by (simp_all add: example_node_def)
  have l: "LastCommonAncestor example_ext (heap ?s) 3 5 = Some 2"
    by (simp add: ex_lca)
  have wx: "walk (heap ?s) (Some 3) (Some 2) [3]" and wy: "walk (heap ?s) (Some 5) (Some 2) [5, 4]"
    by (simp_all add: ex_walks)
  have d: "\<exists>b\<in>set ([3] @ [5, 4]). \<not> has_data (BLOCK_HAVE_DATA example_ext) (heap ?s b)"
    by simp
  from data_unavailable_rejects_request [OF p f t l wx wy d, of "''token''"]
  show ?thesis by simp
qed

text \<open>
  Claim C9.  For every request of \<open>game_sendupdates\<close> whose \<open>fromblock\<close> and \<open>toblock\<close> are the
  same block \<open>x\<close>, with the common ancestor of the specification: the detach list and the
  attach list are both empty and the ancestor is \<open>x\<close>.  The call then fails only for the
  missing data of \<open>x\<close>, a missing notifier or a missing worker; otherwise it reports the
  hash of \<open>x\<close> as the ancestor and zero steps, and hands over an item with two empty
  lists.
\<close>

theorem same_tip_empty_sequences:
  assumes "LastCommonAncestor ext = LastCommonAncestor_spec"
    and "parse_params ext request s = Inr (gameid, fromBlock, toBlock)"
    and "mapBlockIndex s fromBlock = Some x" and "mapBlockIndex s toBlock = Some x"
  shows "sendupdates_sequences ext (heap s) x x = Some (Inr (x, [], []))
         \<and> game_sendupdates ext tok request s =
            (if \<not> has_data (BLOCK_HAVE_DATA ext) (heap s x)
             then Some (Inl (JSONRPCError RPC_DATABASE_ERROR ''fromblock has no data''), s)
             else case GetGameBlocksNotifier s of
               Inl e \<Rightarrow> Some (Inl e, s)
             | Inr notifier \<Rightarrow>
                 if \<not> worker_exists s
                 then Some (Inl (AssertionFailed ''g_send_updates_worker != nullptr''), s)
                 else Some (Inr (sendupdates_result ext toBlock (phashBlock (heap s x)) tok 0 0),
                            enqueue \<lparr>reqtoken = tok, detach = [], attach = [],
                                     trackedGames = {gameid}\<rparr> s))"
proof -
  have "LastCommonAncestor ext (heap s) x x = Some x"
    by (simp add: assms(1) LastCommonAncestor_spec_same)
  from sendupdates_sequences_same [OF this]
  have q: "sendupdates_sequences ext (heap s) x x = Some (Inr (x, [], []))" .
  then show ?thesis
    by (simp add: game_sendupdates_resolved [OF assms(2-4)] split: sum.split)
qed

text \<open>Claim C9 on the example: the request from \<open>C\<close> to \<open>C\<close>.\<close>

theorem same_tip_empty_sequences_witness:
  "sendupdates_sequences example_ext example_heap 3 3 = Some (Inr (3, [], []))
   \<and> game_sendupdates example_ext ''token'' example_request_same example_node
     = Some (Inr (UniObj [(''toblock'', UniStr ''hashC''), (''ancestor'', UniStr ''hashC''),
                          (''reqtoken'', UniStr ''token''),
                          (''steps'', UniObj [(''detach'', UniNum 0), (''attach'', UniNum 0)])]),
             enqueue \<lparr>reqtoken = ''token'', detach = [], attach = [], trackedGames = {''huc''}\<rparr>
               example_node)"
proof -
  have l: "LastCommonAncestor example_ext = LastCommonAncestor_spec" by simp
  have p: "parse_params example_ext example_request_same example_node = Inr (''huc'', 103, 103)"
    by (simp add: parse_params_def example_ext_def example_request_same_def example_node_def
          example_hashes_def)
  have f: "mapBlockIndex example_node 103 = Some 3" by (simp add: example_node_def)
  have h: "heap example_node = example_heap" by (simp add: example_node_def)
  have n: "GetGameBlocksNotifier example_node = Inr {''a'', ''b''}"
    by (simp add: GetGameBlocksNotifier_def example_node_def)
  have w: "worker_exists example_node" by (simp add: example_node_def)
  have r: "sendupdates_result example_ext 103 (phashBlock (example_heap 3)) ''token'' 0 0
           = UniObj [(''toblock'', UniStr ''hashC''), (''ancestor'', UniStr ''hashC''),
                          (''reqtoken'', UniStr ''token''),
                          (''steps'', UniObj [(''detach'', UniNum 0), (''attach'', UniNum 0)])]"
    by (simp add: sendupdates_result_def example_ext_def example_heap_def example_hashes_def)
  from same_tip_empty_sequences [OF l p f f, of "''token''"] show ?thesis
    by (simp add: h n w r)
qed

text \<open>
  Claim C7.  For every call of \<open>enqueue\<close> on an interrupted worker the item is dropped: the
  call only adds a line to the debug log, the queue and the state of the runner are what
  they were, and nothing is thrown (\<open>enqueue\<close> has no error result).  On a worker that is
  not interrupted the item is pushed at the back of the queue, and a runner blocked in
  \<open>wait\<close> is woken.
\<close>

theorem enqueue_after_interrupt_drops:
  "(interrupted s \<longrightarrow>
      enqueue w s = s\<lparr>debug_log := debug_log s @ [LogNotEnqueueing w]\<rparr>
      \<and> work (enqueue w s) = work s \<and> runner (enqueue w s) = runner s)
   \<and> (\<not> interrupted s \<longrightarrow>
      work (enqueue w s) = work s @ [w]
      \<and> runner (enqueue w s) = (if runner s = CvWait then LoopHead else runner s)
      \<and> runner (enqueue w s) \<noteq> CvWait
      \<and> debug_log (enqueue w s) = debug_log s @ [LogEnqueueing w])"
  by (simp add: enqueue_def notify_all_def)

text \<open>
  Claim C7 on the example: an item enqueued after \<open>interrupt\<close> is dropped; an item enqueued
  while the runner waits is queued and wakes the runner.
\<close>

theorem enqueue_after_interrupt_drops_witness:
  "interrupted (interrupt example_node)
   \<and> work (enqueue example_work (interrupt example_node)) = []
   \<and> runner (enqueue example_work (interrupt example_node)) = LoopHead
   \<and> work (enqueue example_work (run_step example_ext example_node)) = [example_work]
   \<and> runner (run_step example_ext example_node) = CvWait
   \<and> runner (enqueue example_work (run_step example_ext example_node)) = LoopHead"
proof -
  have i: "interrupted (interrupt example_node)" by (simp add: interrupt_def)
  have a: "work (interrupt example_node) = []" "runner (interrupt example_node) = LoopHead"
    by (simp_all add: interrupt_def notify_all_def example_node_def)
  have n: "\<not> interrupted (run_step example_ext example_node)"
    "work (run_step example_ext example_node) = []"
    "runner (run_step example_ext example_node) = CvWait"
    by (simp_all add: run_step_def example_node_def)
  from enqueue_after_interrupt_drops [of "interrupt example_node" example_work]
       enqueue_after_interrupt_drops [of "run_step example_ext example_node" example_work]
       i a n
  show ?thesis by simp
qed




text \<open>
  Claim C2.  From a worker that has just been constructed, for every schedule of \<open>enqueue\<close>
  calls, \<open>interrupt\<close> calls and steps of the runner: if the runner has left its loop by
  the \<open>break\<close>, then the queue is empty, the worker is interrupted, and the notifications
  sent are exactly those of all the items enqueued before the first \<open>interrupt\<close>, in the
  order of the \<open>enqueue\<close> calls.  Once the worker is interrupted, and with a notifier in
  place, two steps of the runner for each queued item and two more bring the runner to the
  \<open>break\<close>, with all those notifications sent.
\<close>

theorem run_drains_queue_before_exit:
  assumes "runner s = LoopHead" and "work s = []" and "\<not> interrupted s"
  shows "(runner (exec ext evs s) = Exited \<longrightarrow>
            work (exec ext evs s) = [] \<and> interrupted (exec ext evs s)
            \<and> published (exec ext evs s) = published s @ all_notifications ext (accepted evs))
         \<and> (interrupted (exec ext evs s) \<and> GetGameBlocksNotifier s = Inr n \<longrightarrow>
            runner (exec ext (evs @ replicate (2 * length (work (exec ext evs s)) + 2) EvRunner) s)
              = Exited
            \<and> published (exec ext (evs @ replicate (2 * length (work (exec ext evs s)) + 2)
                                          EvRunner) s)
              = published s @ all_notifications ext (accepted evs))"
proof -
  have p0: "pending s = []" using assms(1,2) by (simp add: pending_def)
  have safe: "runner (exec ext es s) = Exited \<longrightarrow>
            work (exec ext es s) = [] \<and> interrupted (exec ext es s)
            \<and> published (exec ext es s) = published s @ all_notifications ext (accepted es)"
    for es
  proof
    assume x: "runner (exec ext es s) = Exited"
    from assms(1) have "runner s = Exited \<longrightarrow> work s = [] \<and> interrupted s" by simp
    from exec_exited_inv [OF this, of ext es] x
    have w: "work (exec ext es s) = []" and i: "interrupted (exec ext es s)" by simp_all
    from x w have pe: "pending (exec ext es s) = []" by (simp add: pending_def)
    from x have "\<forall>e. runner (exec ext es s) \<noteq> Threw e" by simp
    from exec_published [OF this] pe p0 assms(3)
    have "published (exec ext es s) = published s @ all_notifications ext (accepted es)"
      by simp
    with w i show "work (exec ext es s) = [] \<and> interrupted (exec ext es s)
            \<and> published (exec ext es s) = published s @ all_notifications ext (accepted es)"
      by simp
  qed
  have live: "interrupted (exec ext evs s) \<and> GetGameBlocksNotifier s = Inr n \<longrightarrow>
            runner (exec ext (evs @ replicate (2 * length (work (exec ext evs s)) + 2) EvRunner) s)
              = Exited
            \<and> published (exec ext (evs @ replicate (2 * length (work (exec ext evs s)) + 2)
                                          EvRunner) s)
              = published s @ all_notifications ext (accepted evs)"
  proof
    assume a: "interrupted (exec ext evs s) \<and> GetGameBlocksNotifier s = Inr n"
    let ?s' = "exec ext evs s"
    let ?k = "2 * length (work ?s') + 2"
    from a have i: "interrupted ?s'" and n: "GetGameBlocksNotifier ?s' = Inr n" by simp_all
    from assms(1) have "\<forall>e. runner s \<noteq> Threw e" by simp
    from exec_no_throw [OF _ this, of n ext evs] a have nt: "\<forall>e. runner ?s' \<noteq> Threw e" by simp
    from assms(3) have "interrupted s \<longrightarrow> runner s \<noteq> CvWait" by simp
    from exec_awake_inv [OF this, of ext evs] i have nw: "runner ?s' \<noteq> CvWait" by simp
    from nt nw have m: "(case runner ?s' of LoopHead \<Rightarrow> 2 * length (work ?s') + 1
          | Processing w \<Rightarrow> 2 * length (work ?s') + 2
          | Exited \<Rightarrow> 0 | _ \<Rightarrow> ?k + 1) \<le> ?k"
      by (cases "runner ?s'") simp_all
    from drain_steps [OF n i m]
    have x: "runner (exec ext (evs @ replicate ?k EvRunner) s) = Exited"
      by (simp add: exec_append)
    from safe [of "evs @ replicate ?k EvRunner"] x
    have "published (exec ext (evs @ replicate ?k EvRunner) s)
              = published s @ all_notifications ext (accepted (evs @ replicate ?k EvRunner))"
      by blast
    then have "published (exec ext (evs @ replicate ?k EvRunner) s)
              = published s @ all_notifications ext (accepted evs)"
      by (simp only: accepted_append_runner)
    with x show "runner (exec ext (evs @ replicate ?k EvRunner) s) = Exited
            \<and> published (exec ext (evs @ replicate ?k EvRunner) s)
              = published s @ all_notifications ext (accepted evs)"
      by blast
  qed
  from safe [of evs] live show ?thesis by blast
qed

text \<open>
  Claim C2 on the example: one item is enqueued, the worker is interrupted, and the runner
  sends the three notifications of the item before it leaves its loop.
\<close>

theorem run_drains_queue_before_exit_witness:
  "runner (exec example_ext example_schedule example_node) = Exited
   \<and> work (exec example_ext example_schedule example_node) = []
   \<and> interrupted (exec example_ext example_schedule example_node)
   \<and> published (exec example_ext example_schedule example_node)
     = [\<lparr>n_games = {''huc''}, n_prefix = PREFIX_DETACH, n_reqtoken = ''token'',
          n_block = [3], n_pindex = 3\<rparr>,
        \<lparr>n_games = {''huc''}, n_prefix = PREFIX_ATTACH, n_reqtoken = ''token'',
          n_block = [4], n_pindex = 4\<rparr>,
        \<lparr>n_games = {''huc''}, n_prefix = PREFIX_ATTACH, n_reqtoken = ''token'',
          n_block = [5], n_pindex = 5\<rparr>]
   \<and> runner (exec example_ext
               ([EvEnqueue example_work, EvInterrupt]
                @ replicate (2 * length (work (exec example_ext
                                [EvEnqueue example_work, EvInterrupt] example_node)) + 2)
                    EvRunner)
               example_node) = Exited"
proof -
  have s: "runner example_node = LoopHead" "work example_node = []"
    "\<not> interrupted example_node"
    by (simp_all add: example_node_def)
  have p: "published example_node = []" by (simp add: example_node_def)
  have n: "GetGameBlocksNotifier example_node = Inr {''a'', ''b''}"
    by (simp add: GetGameBlocksNotifier_def example_node_def)
  have a: "accepted example_schedule = [example_work]"
    by (simp add: accepted_def example_schedule_def)
  have m: "all_notifications example_ext [example_work]
     = [\<lparr>n_games = {''huc''}, n_prefix = PREFIX_DETACH, n_reqtoken = ''token'',
          n_block = [3], n_pindex = 3\<rparr>,
        \<lparr>n_games = {''huc''}, n_prefix = PREFIX_ATTACH, n_reqtoken = ''token'',
          n_block = [4], n_pindex = 4\<rparr>,
        \<lparr>n_games = {''huc''}, n_prefix = PREFIX_ATTACH, n_reqtoken = ''token'',
          n_block = [5], n_pindex = 5\<rparr>]"
    by (simp add: all_notifications_def notifications_of_def block_notification_def
          example_work_def example_ext_def)
  note t1 = run_drains_queue_before_exit [OF s, of example_ext example_schedule "{''a'', ''b''}"]
  note t2 = run_drains_queue_before_exit [OF s, of example_ext
          "[EvEnqueue example_work, EvInterrupt]" "{''a'', ''b''}"]
  from t1 example_schedule_run(1)
  have c1: "work (exec example_ext example_schedule example_node) = []"
    and c2: "interrupted (exec example_ext example_schedule example_node)"
    and c3: "published (exec example_ext example_schedule example_node)
             = published example_node @ all_notifications example_ext (accepted example_schedule)"
    by blast+
  from c3 have c3': "published (exec example_ext example_schedule example_node)
     = [\<lparr>n_games = {''huc''}, n_prefix = PREFIX_DETACH, n_reqtoken = ''token'',
          n_block = [3], n_pindex = 3\<rparr>,
        \<lparr>n_games = {''huc''}, n_prefix = PREFIX_ATTACH, n_reqtoken = ''token'',
          n_block = [4], n_pindex = 4\<rparr>,
        \<lparr>n_games = {''huc''}, n_prefix = PREFIX_ATTACH, n_reqtoken = ''token'',
          n_block = [5], n_pindex = 5\<rparr>]"
    by (simp only: p a m append_Nil)
  from t2 example_schedule_run(2) n
  have c4: "runner (exec example_ext
               ([EvEnqueue example_work, EvInterrupt]
                @ replicate (2 * length (work (exec example_ext
                                [EvEnqueue example_work, EvInterrupt] example_node)) + 2)
                    EvRunner)
               example_node) = Exited"
    by blast
  from example_schedule_run(1) c1 c2 c3' c4 show ?thesis by blast
qed



text \<open>
  Claim C8 as stated fails: the registry is not read.  In the example the notifier tracks the
  games \<open>a\<close> and \<open>b\<close>; the request for the game \<open>huc\<close> succeeds and queues an item whose
  \<open>trackedGames\<close> is \<open>{huc}\<close>.
\<close>

theorem trackedGames_not_read_from_registry:
  "GetGameBlocksNotifier example_node = Inr {''a'', ''b''}
   \<and> game_sendupdates example_ext ''token'' example_request example_node
     = Some (Inr (UniObj [(''toblock'', UniStr ''hashE''), (''ancestor'', UniStr ''hashB''),
                          (''reqtoken'', UniStr ''token''),
                          (''steps'', UniObj [(''detach'', UniNum 1), (''attach'', UniNum 2)])]),
             enqueue example_work example_node)
   \<and> work (enqueue example_work example_node) = [example_work]
   \<and> trackedGames example_work = {''huc''}
   \<and> trackedGames example_work \<noteq> {''a'', ''b''}"
proof -
  have n: "GetGameBlocksNotifier example_node = Inr {''a'', ''b''}"
    by (simp add: GetGameBlocksNotifier_def example_node_def)
  have w: "work (enqueue example_work example_node) = [example_work]"
    by (simp add: enqueue_fields example_node_def)
  have t: "trackedGames example_work = {''huc''}" "trackedGames example_work \<noteq> {''a'', ''b''}"
    by (auto simp: example_work_def)
  from n example_request_run w t show ?thesis by blast
qed

text \<open>
  Claim C8, amended.  For every successful request of \<open>game_sendupdates\<close>, the set
  \<open>trackedGames\<close> of the work item is the singleton of the game id given as the first
  parameter of the request, whatever the notifier tracks; it is fixed when the item is
  handed to \<open>enqueue\<close>, and no later call of \<open>trackedgames\<close> changes the queue.
\<close>

theorem trackedGames_is_request_gameid:
  assumes "game_sendupdates ext tok request s = Some (Inr res, s')"
  shows "\<exists>gameid w. get_str (params request ! 0) = Inr gameid
           \<and> trackedGames w = {gameid} \<and> reqtoken w = tok
           \<and> s' = enqueue w s
           \<and> work s' = (if interrupted s then work s else work s @ [w])
           \<and> (\<forall>request'. work (snd (trackedgames ext request' s')) = work s')"
proof -
  from assms obtain gameid fromBlock toBlock f t a det att n where
    p: "parse_params ext request s = Inr (gameid, fromBlock, toBlock)" and
    s': "s' = enqueue \<lparr>reqtoken = tok, detach = det, attach = att, trackedGames = {gameid}\<rparr> s"
    by (rule game_sendupdates_Inr)
  let ?w = "\<lparr>reqtoken = tok, detach = det, attach = att, trackedGames = {gameid}\<rparr>"
  from parse_params_gameid [OF p] have g: "get_str (params request ! 0) = Inr gameid" .
  have "trackedGames ?w = {gameid}" "reqtoken ?w = tok" by simp_all
  moreover from s' have "work s' = (if interrupted s then work s else work s @ [?w])"
    by (simp add: enqueue_fields)
  moreover have "\<forall>request'. work (snd (trackedgames ext request' s')) = work s'"
    by (simp add: trackedgames_work)
  ultimately show ?thesis using g s' by blast
qed

text \<open>The amended Claim C8 on the example request.\<close>

theorem trackedGames_is_request_gameid_witness:
  "\<exists>gameid w. get_str (params example_request ! 0) = Inr gameid
           \<and> trackedGames w = {gameid} \<and> reqtoken w = ''token''
           \<and> enqueue example_work example_node = enqueue w example_node
           \<and> work (enqueue example_work example_node)
             = (if interrupted example_node then work example_node else work example_node @ [w])
           \<and> (\<forall>request'. work (snd (trackedgames example_ext request'
                                        (enqueue example_work example_node)))
                          = work (enqueue example_work example_node))"
  using trackedGames_is_request_gameid [OF example_request_run] .

end
